theory Spec2Isabelle
  imports Main "HOL-Library.Sublist"
begin

section \<open>The configuration loader of neuralmonkey (config/config\_loader.py)\<close>

text \<open>
  The loader reads an INI-like document, turns every value text into a typed value
  (\<open>format_value\<close>), and builds the declared objects recursively (\<open>get_object\<close>),
  memoising them in the dictionary \<open>existing_objects\<close>.  Python exceptions are values
  of the type \<open>exc\<close>; a function that can raise returns \<open>exc + 'a\<close>, with \<open>Inl\<close> the
  exception.  Dictionaries whose iteration order the code relies on are association
  lists in insertion order.
\<close>

subsection \<open>Values, types and exceptions\<close>

text \<open>
  What \<open>getargspec\<close> reports of a callable: the positional parameter names, the number
  of trailing parameters that have a default (\<open>len(arg_spec.defaults)\<close>, with \<open>None\<close>
  counted as no default), and the name of the \<open>**kwargs\<close> parameter if there is one (the fields \<open>args\<close>,
  \<open>defaults\<close> and \<open>keywords\<close> of the source).
\<close>

record argspec =
  spec_args :: "string list"
  spec_defaults :: nat
  spec_keywords :: "string option"

text \<open>
  What \<open>getattr(module, class_name)\<close> may give: a class, a function, or some other
  object (of the runtime type named).  \<open>signature\<close> is what \<open>getargspec\<close> says of
  \<open>clazz.__init__\<close> for a class and of the function itself otherwise.
\<close>

datatype kind = IsClass | IsFunction | IsOther string

record clazz =
  path :: string
  kind :: kind
  signature :: argspec

text \<open>
  A formatted value.  A float keeps the text of its literal (floating point is not
  evaluated here).  \<open>VObj a\<close> is a constructed instance, the object at address \<open>a\<close>
  of the heap; two values denote the identical instance when the addresses are equal.
\<close>

datatype val =
    VBool bool
  | VNone
  | VInt int
  | VFloat string
  | VStr string
  | VList "val list"
  | VTuple "val list"
  | VClass clazz
  | VObj nat

datatype pytype =
  TBool | TNoneType | TInt | TFloat | TStr | TList | TTuple | TType | TFunction
  | TOther string | TObject

fun type_of :: "val \<Rightarrow> pytype" where
  "type_of (VBool b) = TBool"
| "type_of VNone = TNoneType"
| "type_of (VInt n) = TInt"
| "type_of (VFloat x) = TFloat"
| "type_of (VStr s) = TStr"
| "type_of (VList vs) = TList"
| "type_of (VTuple vs) = TTuple"
| "type_of (VClass c) =
     (case kind c of IsClass \<Rightarrow> TType | IsFunction \<Rightarrow> TFunction | IsOther t \<Rightarrow> TOther t)"
| "type_of (VObj a) = TObject"

datatype ini_message =
    DuplicitObjectKey string nat
  | DuplicitKey string nat
  | UnknownString string
  | ErrorMessage

datatype exc =
    InvalidBracketEnd char nat
  | IndexError
  | KeyError
  | ValueError string
  | ModuleNotExist string string
  | ImportError
  | ClassNotExist string string
  | ListNotSameType "pytype list"
  | IniSyntaxError nat ini_message "exc option"
  | ObjectNotDefined string
  | DepthExceeded
  | ClassNotDefined string
  | NotTypeOrFunction string
  | MissingRequiredArgs string "string set"
  | UnexpectedArgument string "string set"
  | ConstructorRaised string
  | ConfigBuildException string exc
  | NoMainBlock

subsection \<open>Characters and the regular expressions of the module\<close>

definition is_digit :: "char \<Rightarrow> bool" where
  "is_digit c = (c \<in> set ''0123456789'')"

definition is_letter :: "char \<Rightarrow> bool" where
  "is_letter c = (c \<in> set ''abcdefghijklmnopqrstuvwxyzABCDEFGHIJKLMNOPQRSTUVWXYZ'')"

definition is_ident_char :: "char \<Rightarrow> bool" where
  "is_ident_char c = (is_letter c \<or> is_digit c \<or> c = CHR ''_'')"

text \<open>The pattern \<open>[a-zA-Z][a-zA-Z0-9_]*\<close>, matched against a whole string.\<close>

definition is_ident :: "string \<Rightarrow> bool" where
  "is_ident s = (case s of [] \<Rightarrow> False | c # cs \<Rightarrow> is_letter c \<and> list_all is_ident_char cs)"

text \<open>
  Python's \<open>$\<close> matches at the end of the string and also just before a newline that
  ends the string: \<open>before_dollar s\<close> is the part a pattern \<open>^...$\<close> has to cover.
\<close>

definition before_dollar :: "string \<Rightarrow> string" where
  "before_dollar s = (if s \<noteq> [] \<and> last s = CHR 0x0A then butlast s else s)"

text \<open>\<open>INTEGER = ^[0-9]+$\<close>\<close>

definition INTEGER_match :: "string \<Rightarrow> bool" where
  "INTEGER_match s = (before_dollar s \<noteq> [] \<and> list_all is_digit (before_dollar s))"

definition digit_value :: "char \<Rightarrow> int" where
  "digit_value c = int (of_char c) - 48"

text \<open>\<open>int(string)\<close> on a string that matched \<open>INTEGER\<close> (a final newline is ignored).\<close>

definition int_of_string :: "string \<Rightarrow> int" where
  "int_of_string s = foldl (\<lambda>n c. 10 * n + digit_value c) 0 (before_dollar s)"

text \<open>The optional exponent \<open>(e[+-]?[0-9]+)?\<close> covering a whole rest.\<close>

definition exponent_match :: "string \<Rightarrow> bool" where
  "exponent_match s =
     (case s of
        [] \<Rightarrow> True
      | c # cs \<Rightarrow>
          c = CHR ''e'' \<and>
          (let ds = (case cs of [] \<Rightarrow> [] | d # r \<Rightarrow> if d = CHR ''+'' \<or> d = CHR ''-'' then r else cs)
           in ds \<noteq> [] \<and> list_all is_digit ds))"

text \<open>\<open>FLOAT = ^[0-9]*\.[0-9]*(e[+-]?[0-9]+)?$\<close>\<close>

definition FLOAT_match :: "string \<Rightarrow> bool" where
  "FLOAT_match s =
     (case dropWhile is_digit (before_dollar s) of
        [] \<Rightarrow> False
      | c # cs \<Rightarrow> c = CHR ''.'' \<and> exponent_match (dropWhile is_digit cs))"

text \<open>
  \<open>float(string)\<close> on a string that matched \<open>FLOAT\<close>: Python raises \<open>ValueError\<close>
  when the mantissa has no digit (as in \<open>.\<close> or \<open>.e5\<close>).
\<close>

definition float_of_string :: "string \<Rightarrow> exc + val" where
  "float_of_string s =
     (let t = before_dollar s;
          mantissa = takeWhile (\<lambda>c. c \<noteq> CHR ''e'') t
      in if list_ex is_digit mantissa then Inr (VFloat t) else Inl (ValueError s))"

text \<open>\<open>str.split(".")\<close> and \<open>".".join\<close>.\<close>

fun split_dot_loop :: "string \<Rightarrow> string \<Rightarrow> string list" where
  "split_dot_loop part [] = [part]"
| "split_dot_loop part (c # cs) =
     (if c = CHR ''.'' then part # split_dot_loop [] cs else split_dot_loop (part @ [c]) cs)"

definition split_dot :: "string \<Rightarrow> string list" where
  "split_dot s = split_dot_loop [] s"

fun join_dot :: "string list \<Rightarrow> string" where
  "join_dot [] = []"
| "join_dot [p] = p"
| "join_dot (p # q # ps) = p @ ''.'' @ join_dot (q # ps)"

text \<open>One segment \<open>_*[a-zA-Z][a-zA-Z0-9_]*\<close> of a dotted path.\<close>

definition is_segment :: "string \<Rightarrow> bool" where
  "is_segment s = is_ident (dropWhile (\<lambda>c. c = CHR ''_'') s)"

text \<open>\<open>CLASS_NAME = ^_*[a-zA-Z][a-zA-Z0-9_]*(\._*[a-zA-Z][a-zA-Z0-9_]*)+$\<close>\<close>

definition CLASS_NAME_match :: "string \<Rightarrow> bool" where
  "CLASS_NAME_match s =
     (let parts = split_dot (before_dollar s)
      in 2 \<le> length parts \<and> list_all is_segment parts)"

text \<open>
  A pattern \<open>^OPEN([a-zA-Z][a-zA-Z0-9_]*)CLOSE$\<close>; the result is group 1.
\<close>

definition bracketed_ident :: "char \<Rightarrow> char \<Rightarrow> string \<Rightarrow> string option" where
  "bracketed_ident opening closing s =
     (case before_dollar s of
        [] \<Rightarrow> None
      | c # cs \<Rightarrow>
          if c = opening \<and> cs \<noteq> [] \<and> last cs = closing \<and> is_ident (butlast cs)
          then Some (butlast cs) else None)"

text \<open>\<open>OBJECT_NAME = ^\[([a-zA-Z][a-zA-Z0-9_]*)\]$\<close>\<close>

definition OBJECT_NAME_match :: "string \<Rightarrow> string option" where
  "OBJECT_NAME_match s = bracketed_ident (CHR ''['') (CHR '']'') s"

text \<open>\<open>OBJECT_REF = ^<([a-zA-Z][a-zA-Z0-9_]*)>$\<close>\<close>

definition OBJECT_REF_match :: "string \<Rightarrow> string option" where
  "OBJECT_REF_match s = bracketed_ident (CHR ''<'') (CHR ''>'') s"

text \<open>
  \<open>LIST = \[([^]]*)\]\<close>, matched at the start of the string only: after the opening
  bracket the group takes every character up to the first \<open>]\<close>, which must exist.
  Whatever follows that \<open>]\<close> is not looked at.
\<close>

definition LIST_match :: "string \<Rightarrow> string option" where
  "LIST_match s =
     (case s of
        [] \<Rightarrow> None
      | c # rest \<Rightarrow>
          if c = CHR ''['' \<and> CHR '']'' \<in> set rest
          then Some (takeWhile (\<lambda>x. x \<noteq> CHR '']'') rest) else None)"

text \<open>
  \<open>TUPLE = \(([^]]+)\)\<close>, matched at the start of the string only: the group is
  greedy, so it ends just before the last \<open>)\<close> that stands before the first \<open>]\<close>,
  and it must not be empty.
\<close>

definition TUPLE_match :: "string \<Rightarrow> string option" where
  "TUPLE_match s =
     (case s of
        [] \<Rightarrow> None
      | c # rest \<Rightarrow>
          if c = CHR ''('' then
            (let p = takeWhile (\<lambda>x. x \<noteq> CHR '']'') rest;
                 ks = filter (\<lambda>k. p ! k = CHR '')'') [1..<length p]
             in if ks = [] then None else Some (take (last ks) p))
          else None)"

subsection \<open>The bracket-aware splitter\<close>

text \<open>
  The loop of \<open>split_on_commas\<close> over \<open>enumerate(string)\<close>: \<open>i\<close> is the index of the
  character \<open>char\<close>; \<open>openings.pop()\<close> on the empty list raises \<open>IndexError\<close>.
\<close>

fun split_loop :: "nat \<Rightarrow> string \<Rightarrow> string list \<Rightarrow> string \<Rightarrow> string \<Rightarrow> exc + string list" where
  "split_loop i [] items char_buffer openings = Inr (items @ [char_buffer])"
| "split_loop i (char # rest) items char_buffer openings =
    (if char = CHR '','' \<and> length openings = 0 then
       split_loop (i + 1) rest (items @ [char_buffer]) [] openings
     else if char = CHR '' '' \<and> length char_buffer = 0 then
       split_loop (i + 1) rest items char_buffer openings
     else if char = CHR ''('' \<or> char = CHR ''['' then
       split_loop (i + 1) rest items (char_buffer @ [char]) (openings @ [char])
     else if char = CHR '')'' then
       (if openings = [] then Inl IndexError
        else if last openings \<noteq> CHR ''('' then Inl (InvalidBracketEnd char i)
        else split_loop (i + 1) rest items (char_buffer @ [char]) (butlast openings))
     else if char = CHR '']'' then
       (if openings = [] then Inl IndexError
        else if last openings \<noteq> CHR ''['' then Inl (InvalidBracketEnd char i)
        else split_loop (i + 1) rest items (char_buffer @ [char]) (butlast openings))
     else split_loop (i + 1) rest items (char_buffer @ [char]) openings)"

definition split_on_commas :: "string \<Rightarrow> exc + string list" where
  "split_on_commas string = split_loop 0 string [] [] []"

text \<open>
  For stating what the splitter rejects: the stack of brackets that are open after a
  text (a closing bracket removes the top, whatever it is), and the positions where a
  closing bracket meets no matching top.
\<close>

definition track :: "string \<Rightarrow> char \<Rightarrow> string" where
  "track openings c =
     (if c = CHR ''('' \<or> c = CHR ''['' then openings @ [c]
      else if c = CHR '')'' \<or> c = CHR '']'' then butlast openings
      else openings)"

definition open_after :: "string \<Rightarrow> string" where
  "open_after s = foldl track [] s"

definition opener :: "char \<Rightarrow> char" where
  "opener c = (if c = CHR '')'' then CHR ''('' else CHR ''['')"

definition bad_close :: "string \<Rightarrow> nat \<Rightarrow> bool" where
  "bad_close s i =
     (i < length s \<and> (s ! i = CHR '')'' \<or> s ! i = CHR '']'') \<and>
      (open_after (take i s) = [] \<or> last (open_after (take i s)) \<noteq> opener (s ! i)))"

text \<open>The same, for a text read while the brackets \<open>openings\<close> are already open.\<close>

definition bad_from :: "string \<Rightarrow> string \<Rightarrow> nat \<Rightarrow> bool" where
  "bad_from openings s i =
     (i < length s \<and> (s ! i = CHR '')'' \<or> s ! i = CHR '']'') \<and>
      (foldl track openings (take i s) = [] \<or>
       last (foldl track openings (take i s)) \<noteq> opener (s ! i)))"

subsection \<open>The value formatter\<close>

text \<open>
  \<open>importlib.import_module\<close> and the modules it finds are outside this file: the
  formatter takes them as the parameter \<open>import_module\<close>.  An import either raises an
  \<open>ImportError\<close> whose \<open>name\<close> is the module asked for, raises another
  \<open>ImportError\<close>, or gives a module, here the list of its attributes.
\<close>

datatype import_result =
    ImportErrorSelf
  | ImportErrorOther
  | Module "(string \<times> clazz) list"

text \<open>
  Every item the splitter returns is made of characters of its input, and every item
  but the last has used up a comma: this bounds the recursion of \<open>format_value\<close>.
\<close>

definition weight :: "string list \<Rightarrow> nat" where
  "weight items = sum_list (map (\<lambda>x. length x + 1) items)"

lemma weight_split_loop:
  "split_loop i s items char_buffer openings = Inr r \<Longrightarrow>
     weight r \<le> weight items + length char_buffer + 1 + length s"
proof (induction s arbitrary: i items char_buffer openings)
  case Nil
  then show ?case by (auto simp: weight_def)
next
  case (Cons c s)
  show ?case
    using Cons.prems Cons.IH [of "i + 1"]
    by (fastforce simp: weight_def split: if_splits)
qed

lemma weight_split_on_commas:
  "split_on_commas s = Inr r \<Longrightarrow> weight r \<le> length s + 1"
  using weight_split_loop [of 0 s "[]" "[]" "[]" r]
  by (simp add: split_on_commas_def weight_def)

lemma LIST_match_length: "LIST_match s = Some content \<Longrightarrow> length content + 2 \<le> length s"
proof -
  assume m: "LIST_match s = Some content"
  then obtain rest where s: "s = CHR ''['' # rest" and r: "CHR '']'' \<in> set rest"
    and c: "content = takeWhile (\<lambda>x. x \<noteq> CHR '']'') rest"
    by (auto simp: LIST_match_def split: list.splits if_splits)
  have "length (takeWhile (\<lambda>x. x \<noteq> CHR '']'') rest) < length rest"
    using r by (induction rest) auto
  then show ?thesis using s c by simp
qed

lemma TUPLE_match_length: "TUPLE_match s = Some content \<Longrightarrow> length content + 2 \<le> length s"
proof -
  assume m: "TUPLE_match s = Some content"
  then obtain rest where s: "s = CHR ''('' # rest"
    by (auto simp: TUPLE_match_def split: list.splits if_splits)
  define p where "p = takeWhile (\<lambda>x. x \<noteq> CHR '']'') rest"
  define ks where "ks = filter (\<lambda>k. p ! k = CHR '')'') [1..<length p]"
  have ks: "ks \<noteq> []" and c: "content = take (last ks) p"
    using m s by (auto simp: TUPLE_match_def Let_def p_def ks_def split: if_splits)
  have "last ks \<in> set ks" using ks by simp
  then have "last ks < length p" by (simp add: ks_def)
  moreover have "length p \<le> length rest" by (simp add: p_def length_takeWhile_le)
  ultimately show ?thesis using s c by simp
qed

function format_value :: "(string \<Rightarrow> import_result) \<Rightarrow> string \<Rightarrow> exc + val"
  and format_values :: "(string \<Rightarrow> import_result) \<Rightarrow> string list \<Rightarrow> exc + val list"
where
  "format_value import_module string =
    (if string = ''False'' then Inr (VBool False)
     else if string = ''True'' then Inr (VBool True)
     else if string = ''None'' then Inr VNone
     else if INTEGER_match string then Inr (VInt (int_of_string string))
     else if FLOAT_match string then float_of_string string
     else if CLASS_NAME_match string then
       (let class_parts = split_dot string;
            class_name = last class_parts;
            module_name = join_dot (''neuralmonkey'' # butlast class_parts)
        in case import_module module_name of
             ImportErrorSelf \<Rightarrow> Inl (ModuleNotExist string module_name)
           | ImportErrorOther \<Rightarrow> Inl ImportError
           | Module attributes \<Rightarrow>
               (case map_of attributes class_name of
                  None \<Rightarrow> Inl (ClassNotExist string class_name)
                | Some clazz \<Rightarrow> Inr (VClass clazz)))
     else case OBJECT_REF_match string of
       Some name \<Rightarrow> Inr (VStr (''object:'' @ name))
     | None \<Rightarrow>
      (case LIST_match string of
         Some matched_content \<Rightarrow>
           if matched_content = [] then Inr (VList [])
           else (case split_on_commas matched_content of
                   Inl e \<Rightarrow> Inl e
                 | Inr items \<Rightarrow>
                    (case format_values import_module items of
                       Inl e \<Rightarrow> Inl e
                     | Inr values \<Rightarrow>
                         (let types = map type_of values
                          in if length (remdups types) > 1 then Inl (ListNotSameType types)
                             else Inr (VList values))))
       | None \<Rightarrow>
        (case TUPLE_match string of
           Some content \<Rightarrow>
             (case split_on_commas content of
                Inl e \<Rightarrow> Inl e
              | Inr items \<Rightarrow>
                 (case format_values import_module items of
                    Inl e \<Rightarrow> Inl e
                  | Inr values \<Rightarrow> Inr (VTuple values)))
         | None \<Rightarrow> Inr (VStr string))))"
| "format_values import_module [] = Inr []"
| "format_values import_module (val # items) =
    (case format_value import_module val of
       Inl e \<Rightarrow> Inl e
     | Inr v \<Rightarrow>
        (case format_values import_module items of
           Inl e \<Rightarrow> Inl e
         | Inr values \<Rightarrow> Inr (v # values)))"
  by pat_completeness auto
termination
proof (relation "measure (\<lambda>x. case x of Inl (_, s) \<Rightarrow> length s | Inr (_, items) \<Rightarrow> weight items)")
  show "wf (measure (\<lambda>x. case x of Inl (_, s) \<Rightarrow> length s | Inr (_, items) \<Rightarrow> weight items))"
    by simp
next
  fix import_module :: "string \<Rightarrow> import_result" and string matched_content items
  assume "LIST_match string = Some matched_content"
    and "split_on_commas matched_content = Inr items"
  then show "(Inr (import_module, items), Inl (import_module, string))
      \<in> measure (\<lambda>x. case x of Inl (_, s) \<Rightarrow> length s | Inr (_, items) \<Rightarrow> weight items)"
    using LIST_match_length [of string matched_content]
      weight_split_on_commas [of matched_content items] by simp
next
  fix import_module :: "string \<Rightarrow> import_result" and string content items
  assume "TUPLE_match string = Some content"
    and "split_on_commas content = Inr items"
  then show "(Inr (import_module, items), Inl (import_module, string))
      \<in> measure (\<lambda>x. case x of Inl (_, s) \<Rightarrow> length s | Inr (_, items) \<Rightarrow> weight items)"
    using TUPLE_match_length [of string content]
      weight_split_on_commas [of content items] by simp
qed (simp_all add: weight_def)

declare format_value.simps [simp del]

subsection \<open>The document parser\<close>

text \<open>The characters \<open>str.strip()\<close> removes (those with \<open>isspace()\<close>, up to code 255).\<close>

definition is_space :: "char \<Rightarrow> bool" where
  "is_space c = (of_char c \<in> set [9, 10, 11, 12, 13, 28, 29, 30, 31, 32, 133, 160 :: nat])"

definition strip :: "string \<Rightarrow> string" where
  "strip s = rev (dropWhile is_space (rev (dropWhile is_space s)))"

text \<open>
  \<open>re.sub(r"#.*", "", line)\<close>: from a \<open>#\<close> on, everything up to the next newline
  goes (\<open>.\<close> does not match a newline).  The flag says whether a comment is open.
\<close>

fun sub_comment :: "bool \<Rightarrow> string \<Rightarrow> string" where
  "sub_comment in_comment [] = []"
| "sub_comment in_comment (c # cs) =
     (if in_comment then
        (if c = CHR 0x0A then c # sub_comment False cs else sub_comment True cs)
      else if c = CHR ''#'' then sub_comment True cs
      else c # sub_comment False cs)"

text \<open>\<open>re.sub(r"\$TIME", time_stamp, line)\<close>\<close>

function sub_time :: "string \<Rightarrow> string \<Rightarrow> string" where
  "sub_time time_stamp s =
     (if s = [] then []
      else if take 5 s = ''$TIME'' then time_stamp @ sub_time time_stamp (drop 5 s)
      else hd s # sub_time time_stamp (tl s))"
  by pat_completeness auto
termination
  by (relation "measure (\<lambda>(t, s). length s)") auto

text \<open>The equation is unfolded only where asked for: it applies to its own right-hand side.\<close>

declare sub_time.simps [simp del]

text \<open>
  \<open>KEY_VALUE_PAIR = ^([a-zA-Z][a-zA-Z0-9_]*) *= *(.+)$\<close>; the result is
  (group 1, group 2).  The spaces after \<open>=\<close> are taken greedily, but group 2 needs one
  character: when only spaces follow the \<open>=\<close>, the last of them is the value.
\<close>

definition KEY_VALUE_PAIR_match :: "string \<Rightarrow> (string \<times> string) option" where
  "KEY_VALUE_PAIR_match line =
     (let key = takeWhile is_ident_char line
      in if \<not> is_ident key then None
         else case dropWhile (\<lambda>c. c = CHR '' '') (drop (length key) line) of
                [] \<Rightarrow> None
              | c # rest \<Rightarrow>
                  if c \<noteq> CHR ''='' then None
                  else (let t = before_dollar rest;
                            v = dropWhile (\<lambda>c. c = CHR '' '') t
                        in if CHR 0x0A \<in> set t then None
                           else if v \<noteq> [] then Some (key, v)
                           else if t \<noteq> [] then Some (key, '' '')
                           else None))"

type_synonym object_dict = "(string \<times> val) list"
type_synonym config = "(string \<times> object_dict) list"

text \<open>\<open>config_dicts[current_name][key] = v\<close> for a key the section does not have yet.\<close>

definition add_key :: "config \<Rightarrow> string \<Rightarrow> string \<Rightarrow> val \<Rightarrow> config" where
  "add_key config_dicts current_name key v =
     map (\<lambda>(name, d). if name = current_name then (name, d @ [(key, v)]) else (name, d))
       config_dicts"

text \<open>
  The body of the loop of \<open>get_config_dicts\<close> for the line with index \<open>i\<close> of
  \<open>enumerate(config_file)\<close>.  \<open>config_dicts[current_name]\<close> raises \<open>KeyError\<close> while
  \<open>current_name\<close> is \<open>None\<close>; every exception that is not an \<open>IniSyntaxError\<close> is
  wrapped into one.
\<close>

definition parse_line ::
  "(string \<Rightarrow> import_result) \<Rightarrow> string \<Rightarrow> nat \<Rightarrow> string \<Rightarrow> config \<times> string option
     \<Rightarrow> exc + config \<times> string option" where
  "parse_line import_module time_stamp i raw_line state =
     (let config_dicts = fst state;
          current_name = snd state;
          line = sub_time time_stamp (sub_comment False (strip raw_line))
      in if line = [] then Inr state
         else if hd line = CHR '';'' then Inr state
         else case OBJECT_NAME_match line of
           Some name \<Rightarrow>
             if name \<in> fst ` set config_dicts
             then Inl (IniSyntaxError i (DuplicitObjectKey name i) None)
             else Inr (config_dicts @ [(name, [])], Some name)
         | None \<Rightarrow>
          (case KEY_VALUE_PAIR_match line of
             Some (key, value_string) \<Rightarrow>
              (case current_name of
                 None \<Rightarrow> Inl (IniSyntaxError i ErrorMessage (Some KeyError))
               | Some current \<Rightarrow>
                  (case map_of config_dicts current of
                     None \<Rightarrow> Inl (IniSyntaxError i ErrorMessage (Some KeyError))
                   | Some current_dict \<Rightarrow>
                       if key \<in> fst ` set current_dict
                       then Inl (IniSyntaxError i (DuplicitKey key i) None)
                       else (case format_value import_module value_string of
                               Inl e \<Rightarrow> Inl (IniSyntaxError i ErrorMessage (Some e))
                             | Inr v \<Rightarrow> Inr (add_key config_dicts current key v, Some current))))
           | None \<Rightarrow> Inl (IniSyntaxError i (UnknownString line) None)))"

fun parse_lines ::
  "(string \<Rightarrow> import_result) \<Rightarrow> string \<Rightarrow> nat \<Rightarrow> string list \<Rightarrow> config \<times> string option
     \<Rightarrow> exc + config \<times> string option" where
  "parse_lines import_module time_stamp i [] state = Inr state"
| "parse_lines import_module time_stamp i (line # rest) state =
     (case parse_line import_module time_stamp i line state of
        Inl e \<Rightarrow> Inl e
      | Inr state' \<Rightarrow> parse_lines import_module time_stamp (i + 1) rest state')"

text \<open>
  \<open>time_stamp\<close> is the text \<open>time.strftime\<close> gave when the parse began; the file is
  the list of its lines.
\<close>

definition get_config_dicts ::
  "(string \<Rightarrow> import_result) \<Rightarrow> string \<Rightarrow> string list \<Rightarrow> exc + config" where
  "get_config_dicts import_module time_stamp config_file =
     (case parse_lines import_module time_stamp 0 config_file ([], None) of
        Inl e \<Rightarrow> Inl e
      | Inr state \<Rightarrow> Inr (fst state))"

subsection \<open>The object builder\<close>

text \<open>
  The state of one load: the dictionary \<open>existing_objects\<close>, and the heap of the
  instances constructed so far, each with the name of its section, its type and the
  arguments it was called with.  \<open>VObj a\<close> is the instance \<open>heap ! a\<close>.
\<close>

record py_object =
  made_from :: string
  made_by :: clazz
  made_with :: "(string \<times> val) list"

record state =
  existing_objects :: "string \<rightharpoonup> val"
  heap :: "py_object list"

text \<open>Python's \<open>xs[i:j]\<close> with its negative indices, which count from the end.\<close>

definition py_index :: "nat \<Rightarrow> int \<Rightarrow> nat" where
  "py_index n i = (if i < 0 then nat (max 0 (int n + i)) else min n (nat i))"

definition slice :: "'a list \<Rightarrow> int \<Rightarrow> int \<Rightarrow> 'a list" where
  "slice xs i j = drop (py_index (length xs) i) (take (py_index (length xs) j) xs)"

text \<open>\<open>isclass(clazz) or isfunction(clazz)\<close>\<close>

definition callable :: "val \<Rightarrow> clazz option" where
  "callable v =
     (case v of
        VClass c \<Rightarrow> (case kind c of IsOther t \<Rightarrow> None | _ \<Rightarrow> Some c)
      | _ \<Rightarrow> None)"

text \<open>One round of the loop \<open>for key in list(args.keys())\<close>.\<close>

definition check_key ::
  "string set \<Rightarrow> string \<Rightarrow> string set \<times> string set \<Rightarrow> string set \<times> string set" where
  "check_key all_args key sets =
     (let required_args = fst sets; additional_args = snd sets
      in (if key \<in> required_args then required_args - {key} else required_args,
          if key \<notin> all_args then insert key additional_args else additional_args))"

text \<open>
  Lines 221 to 241 of \<open>get_object\<close>: the check of the supplied argument names \<open>keys\<close>
  against the signature; the result is the exception raised, if any.
  \<open>arg_spec.args[0]\<close> raises \<open>IndexError\<close> when there is no parameter.
\<close>

definition check_args :: "string \<Rightarrow> argspec \<Rightarrow> string list \<Rightarrow> exc option" where
  "check_args name arg_spec keys =
     (if spec_keywords arg_spec = None \<or> spec_keywords arg_spec = Some [] then
        (case spec_args arg_spec of
           [] \<Rightarrow> Some IndexError
         | first # _ \<Rightarrow>
            (let required_args =
                   (if first = ''self''
                    then set (slice (spec_args arg_spec) 1 (- int (spec_defaults arg_spec)))
                    else set (slice (spec_args arg_spec) 0 (- int (spec_defaults arg_spec))));
                 all_args = set (spec_args arg_spec);
                 sets = fold (check_key all_args) keys (required_args, {})
             in if fst sets \<noteq> {} then Some (MissingRequiredArgs name (fst sets))
                else if snd sets \<noteq> {} then Some (UnexpectedArgument name (snd sets))
                else None))
      else None)"

text \<open>
  \<open>get_object\<close>, with the list comprehension over a sequence (\<open>get_objects\<close>) and the
  dictionary comprehension over the arguments (\<open>process_args\<close>).  The constructors
  of the domain objects are outside this file: \<open>construct clazz args\<close> is the
  exception the call \<open>clazz(**args)\<close> raises, if any; a call that returns gives a new
  instance.  \<open>existing_objects\<close> is mutated by the source and threaded here.
\<close>

function get_object ::
    "(clazz \<Rightarrow> (string \<times> val) list \<Rightarrow> exc option) \<Rightarrow> val \<Rightarrow> config \<Rightarrow> state \<Rightarrow> string set
       \<Rightarrow> nat \<Rightarrow> exc + val \<times> state"
  and get_objects ::
    "(clazz \<Rightarrow> (string \<times> val) list \<Rightarrow> exc option) \<Rightarrow> val list \<Rightarrow> config \<Rightarrow> state \<Rightarrow> string set
       \<Rightarrow> nat \<Rightarrow> exc + val list \<times> state"
  and process_args ::
    "(clazz \<Rightarrow> (string \<times> val) list \<Rightarrow> exc option) \<Rightarrow> (string \<times> val) list \<Rightarrow> config \<Rightarrow> state
       \<Rightarrow> string set \<Rightarrow> nat \<Rightarrow> exc + (string \<times> val) list \<times> state"
where
  "get_object construct (VList vs) all_dicts st ignore_names depth =
    (case get_objects construct vs all_dicts st ignore_names (depth + 1) of
       Inl e \<Rightarrow> Inl e
     | Inr (rs, st') \<Rightarrow> Inr (VList rs, st'))"
| "get_object construct (VTuple vs) all_dicts st ignore_names depth =
    (case get_objects construct vs all_dicts st ignore_names (depth + 1) of
       Inl e \<Rightarrow> Inl e
     | Inr (rs, st') \<Rightarrow> Inr (VList rs, st'))"
| "get_object construct (VStr value) all_dicts st ignore_names depth =
    (if value \<in> ignore_names then
       Inr (VNone, st\<lparr>existing_objects := (existing_objects st)(value \<mapsto> VNone)\<rparr>)
     else case existing_objects st value of
       Some obj \<Rightarrow> Inr (obj, st)
     | None \<Rightarrow>
        if \<not> prefix ''object:'' value then Inr (VStr value, st)
        else
         (let name = drop 7 value
          in case map_of all_dicts name of
               None \<Rightarrow> Inl (ObjectNotDefined name)
             | Some this_dict \<Rightarrow>
                 if depth > 20 then Inl DepthExceeded
                 else case map_of this_dict ''class'' of
                   None \<Rightarrow> Inl (ClassNotDefined name)
                 | Some class_value \<Rightarrow>
                    (case callable class_value of
                       None \<Rightarrow> Inl (NotTypeOrFunction name)
                     | Some clazz \<Rightarrow>
                        (case process_args construct
                                (filter (\<lambda>(k, arg). k \<noteq> ''class'') this_dict)
                                all_dicts st ignore_names (depth + 1) of
                           Inl e \<Rightarrow> Inl e
                         | Inr (args, st') \<Rightarrow>
                            (case check_args name (signature clazz) (map fst args) of
                               Some e \<Rightarrow> Inl e
                             | None \<Rightarrow>
                                (case construct clazz args of
                                   Some e \<Rightarrow> Inl (ConfigBuildException name e)
                                 | None \<Rightarrow>
                                    Inr (VObj (length (heap st')),
                                         \<lparr>existing_objects =
                                            (existing_objects st')(value \<mapsto> VObj (length (heap st'))),
                                          heap = heap st' @
                                            [\<lparr>made_from = name, made_by = clazz,
                                              made_with = args\<rparr>]\<rparr>)))))))"
| "get_object construct (VBool b) all_dicts st ignore_names depth = Inr (VBool b, st)"
| "get_object construct VNone all_dicts st ignore_names depth = Inr (VNone, st)"
| "get_object construct (VInt n) all_dicts st ignore_names depth = Inr (VInt n, st)"
| "get_object construct (VFloat x) all_dicts st ignore_names depth = Inr (VFloat x, st)"
| "get_object construct (VClass c) all_dicts st ignore_names depth = Inr (VClass c, st)"
| "get_object construct (VObj a) all_dicts st ignore_names depth = Inr (VObj a, st)"
| "get_objects construct [] all_dicts st ignore_names depth = Inr ([], st)"
| "get_objects construct (val # rest) all_dicts st ignore_names depth =
    (case get_object construct val all_dicts st ignore_names depth of
       Inl e \<Rightarrow> Inl e
     | Inr (r, st') \<Rightarrow>
        (case get_objects construct rest all_dicts st' ignore_names depth of
           Inl e \<Rightarrow> Inl e
         | Inr (rs, st'') \<Rightarrow> Inr (r # rs, st'')))"
| "process_args construct [] all_dicts st ignore_names depth = Inr ([], st)"
| "process_args construct ((k, arg) # rest) all_dicts st ignore_names depth =
    (case get_object construct arg all_dicts st ignore_names depth of
       Inl e \<Rightarrow> Inl e
     | Inr (r, st') \<Rightarrow>
        (case process_args construct rest all_dicts st' ignore_names depth of
           Inl e \<Rightarrow> Inl e
         | Inr (rs, st'') \<Rightarrow> Inr ((k, r) # rs, st'')))"
  by pat_completeness auto

text \<open>
  The recursion ends: a reference is followed only while \<open>depth\<close> is at most 20 and
  the arguments are resolved one level deeper; a sequence is resolved one level deeper
  too, and its members are smaller values.
\<close>

termination
  by (relation "inv_image (less_than <*lex*> less_than)
        (\<lambda>x. case x of
           Inl (c, v, ad, st, ig, d) \<Rightarrow> (21 - d, size v)
         | Inr (Inl (c, vs, ad, st, ig, d)) \<Rightarrow> (21 - d, size_list size vs)
         | Inr (Inr (c, items, ad, st, ig, d)) \<Rightarrow> (21 - d, size_list (\<lambda>(k, v). size v) items))")
    auto

subsection \<open>The top-level loader\<close>

text \<open>
  The loop of \<open>load_config_file\<close> over \<open>main_config.items()\<close>: an exception of
  \<open>get_object\<close> is wrapped with the key.  The result is the dictionary
  \<open>configuration\<close> together with the final state of the load.
\<close>

fun build_configuration ::
  "(clazz \<Rightarrow> (string \<times> val) list \<Rightarrow> exc option) \<Rightarrow> (string \<times> val) list \<Rightarrow> config \<Rightarrow> state
     \<Rightarrow> string set \<Rightarrow> (string \<times> val) list \<Rightarrow> exc + (string \<times> val) list \<times> state" where
  "build_configuration construct [] config_dicts st ignore_names configuration =
     Inr (configuration, st)"
| "build_configuration construct ((key, value) # rest) config_dicts st ignore_names configuration =
     (if key \<notin> ignore_names then
        (case get_object construct value config_dicts st ignore_names 0 of
           Inl e \<Rightarrow> Inl (ConfigBuildException key e)
         | Inr (r, st') \<Rightarrow>
             build_configuration construct rest config_dicts st' ignore_names
               (configuration @ [(key, r)]))
      else build_configuration construct rest config_dicts st ignore_names configuration)"

definition empty_state :: state where
  "empty_state = \<lparr>existing_objects = Map.empty, heap = []\<rparr>"

text \<open>The part of \<open>load_config_file\<close> after the parse, with the final state.\<close>

definition load_config_dicts ::
  "(clazz \<Rightarrow> (string \<times> val) list \<Rightarrow> exc option) \<Rightarrow> config \<Rightarrow> string set
     \<Rightarrow> exc + (string \<times> val) list \<times> state" where
  "load_config_dicts construct config_dicts ignore_names =
     (case map_of config_dicts ''main'' of
        None \<Rightarrow> Inl NoMainBlock
      | Some main_config \<Rightarrow>
          build_configuration construct main_config config_dicts empty_state ignore_names [])"

definition load_config_file ::
  "(string \<Rightarrow> import_result) \<Rightarrow> string \<Rightarrow> (clazz \<Rightarrow> (string \<times> val) list \<Rightarrow> exc option)
     \<Rightarrow> string list \<Rightarrow> string set \<Rightarrow> exc + (string \<times> val) list" where
  "load_config_file import_module time_stamp construct config_file ignore_names =
     (case get_config_dicts import_module time_stamp config_file of
        Inl e \<Rightarrow> Inl e
      | Inr config_dicts \<Rightarrow>
         (case load_config_dicts construct config_dicts ignore_names of
            Inl e \<Rightarrow> Inl e
          | Inr (configuration, st) \<Rightarrow> Inr configuration))"

subsection \<open>Notions for stating what a load guarantees\<close>

text \<open>
  The strings that occur in a value, at any nesting inside lists and tuples: these are
  the value slots \<open>get_object\<close> may treat as references.
\<close>

fun strings_of :: "val \<Rightarrow> string set" where
  "strings_of (VStr s) = {s}"
| "strings_of (VList vs) = (\<Union>v\<in>set vs. strings_of v)"
| "strings_of (VTuple vs) = (\<Union>v\<in>set vs. strings_of v)"
| "strings_of (VBool b) = {}"
| "strings_of VNone = {}"
| "strings_of (VInt n) = {}"
| "strings_of (VFloat x) = {}"
| "strings_of (VClass c) = {}"
| "strings_of (VObj a) = {}"

text \<open>The named arguments of a section: its entries other than \<open>class\<close>, in order.\<close>

definition arguments :: "config \<Rightarrow> string \<Rightarrow> (string \<times> val) list" where
  "arguments all_dicts name =
     (case map_of all_dicts name of
        None \<Rightarrow> []
      | Some this_dict \<Rightarrow> filter (\<lambda>(k, arg). k \<noteq> ''class'') this_dict)"

text \<open>
  What a value slot holds once the dictionary \<open>existing_objects\<close> is given: an ignored
  string is \<open>None\<close>, a key of the dictionary is its entry, a sequence is the list of
  what its members hold, anything else is itself.
\<close>

fun resolved :: "string set \<Rightarrow> (string \<rightharpoonup> val) \<Rightarrow> val \<Rightarrow> val" where
  "resolved ignore_names objects (VStr s) =
     (if s \<in> ignore_names then VNone
      else case objects s of Some r \<Rightarrow> r | None \<Rightarrow> VStr s)"
| "resolved ignore_names objects (VList vs) = VList (map (resolved ignore_names objects) vs)"
| "resolved ignore_names objects (VTuple vs) = VList (map (resolved ignore_names objects) vs)"
| "resolved ignore_names objects (VBool b) = VBool b"
| "resolved ignore_names objects VNone = VNone"
| "resolved ignore_names objects (VInt n) = VInt n"
| "resolved ignore_names objects (VFloat x) = VFloat x"
| "resolved ignore_names objects (VClass c) = VClass c"
| "resolved ignore_names objects (VObj a) = VObj a"







text \<open>
  A set of markers none of which can ever be built: none is ignored, and the section
  of each has an argument that mentions a marker of the set.
\<close>

definition blocked :: "config \<Rightarrow> string set \<Rightarrow> string set \<Rightarrow> bool" where
  "blocked all_dicts ignore_names B =
     (\<forall>m\<in>B. m \<notin> ignore_names \<and> prefix ''object:'' m \<and>
        (\<exists>(k, arg)\<in>set (arguments all_dicts (drop 7 m)). strings_of arg \<inter> B \<noteq> {}))"

text \<open>
  A reference cycle among the markers \<open>M\<close>, and nothing else in the way: no marker
  of \<open>M\<close> is ignored or a key already, the section of each has a \<open>class\<close> that is a
  type or function, every string in its arguments is a marker of \<open>M\<close> or a plain string
  (not ignored, not a key, not a reference), and some argument mentions a marker of
  \<open>M\<close>.  \<open>pure_cycle\<close> says the same of a set of section names.
\<close>

definition closed_cycle :: "config \<Rightarrow> string set \<Rightarrow> state \<Rightarrow> string set \<Rightarrow> bool" where
  "closed_cycle all_dicts ignore_names st M =
     (\<forall>m\<in>M.
        m \<notin> ignore_names \<and> existing_objects st m = None \<and> prefix ''object:'' m \<and>
        (case map_of all_dicts (drop 7 m) of
           None \<Rightarrow> False
         | Some this_dict \<Rightarrow>
            (case map_of this_dict ''class'' of
               None \<Rightarrow> False
             | Some class_value \<Rightarrow> callable class_value \<noteq> None)) \<and>
        (\<forall>(k, arg)\<in>set (arguments all_dicts (drop 7 m)). \<forall>s\<in>strings_of arg.
           s \<notin> ignore_names \<and> existing_objects st s = None \<and>
           (prefix ''object:'' s \<longrightarrow> s \<in> M)) \<and>
        (\<exists>(k, arg)\<in>set (arguments all_dicts (drop 7 m)). strings_of arg \<inter> M \<noteq> {}))"

definition pure_cycle :: "config \<Rightarrow> string set \<Rightarrow> state \<Rightarrow> string set \<Rightarrow> bool" where
  "pure_cycle all_dicts ignore_names st S =
     closed_cycle all_dicts ignore_names st ((\<lambda>n. ''object:'' @ n) ` S)"

text \<open>
  The parameters a call has to supply, in the words of the documentation: the formal
  parameters without a default (the last \<open>spec_defaults\<close> parameters are the ones
  that have one), the receiver \<open>self\<close> left out when it comes first.
\<close>

definition required_parameters :: "argspec \<Rightarrow> string set" where
  "required_parameters arg_spec =
     (let without_default =
            take (length (spec_args arg_spec) - spec_defaults arg_spec) (spec_args arg_spec)
      in set (case without_default of
                [] \<Rightarrow> []
              | first # others \<Rightarrow> if first = ''self'' then others else without_default))"

text \<open>
  The nesting of the references below a value that stands at depth \<open>depth\<close>: a
  sequence puts its members one level deeper, a reference to a declared section puts
  the arguments of the section one level deeper, and all members of a sequence and all
  arguments of a section stand at the same level.  \<open>too_deep\<close> says that some
  reference to a declared section stands at a depth above 20.  Neither the dictionary
  \<open>existing_objects\<close> nor the ignore set plays a part: this is a property of the
  document and the value alone.
\<close>

function too_deep :: "config \<Rightarrow> nat \<Rightarrow> val \<Rightarrow> bool" where
  "too_deep all_dicts depth (VList vs) = (\<exists>v\<in>set vs. too_deep all_dicts (depth + 1) v)"
| "too_deep all_dicts depth (VTuple vs) = (\<exists>v\<in>set vs. too_deep all_dicts (depth + 1) v)"
| "too_deep all_dicts depth (VStr value) =
     (prefix ''object:'' value \<and>
      (case map_of all_dicts (drop 7 value) of
         None \<Rightarrow> False
       | Some this_dict \<Rightarrow>
           if depth > 20 then True
           else (\<exists>(k, arg)\<in>set (filter (\<lambda>(k, arg). k \<noteq> ''class'') this_dict).
                   too_deep all_dicts (depth + 1) arg)))"
| "too_deep all_dicts depth (VBool b) = False"
| "too_deep all_dicts depth VNone = False"
| "too_deep all_dicts depth (VInt n) = False"
| "too_deep all_dicts depth (VFloat x) = False"
| "too_deep all_dicts depth (VClass c) = False"
| "too_deep all_dicts depth (VObj a) = False"
  by pat_completeness auto

termination
  apply (relation "inv_image (less_than <*lex*> less_than) (\<lambda>(ad, d, v). (21 - d, size v))")
     apply (auto simp: less_Suc_eq_le size_list_estimation')
  done

text \<open>
  A reference with no defect of its own: its section is declared, has a \<open>class\<close>
  that is a type or function, and the names of its arguments pass the check against the
  signature.  In a sound document every reference written in an argument of a section
  is of this kind.
\<close>

definition sound_reference :: "config \<Rightarrow> string \<Rightarrow> bool" where
  "sound_reference all_dicts s =
     (prefix ''object:'' s \<longrightarrow>
        (case map_of all_dicts (drop 7 s) of
           None \<Rightarrow> False
         | Some this_dict \<Rightarrow>
            (case map_of this_dict ''class'' of
               None \<Rightarrow> False
             | Some class_value \<Rightarrow>
                (case callable class_value of
                   None \<Rightarrow> False
                 | Some clazz \<Rightarrow>
                     check_args (drop 7 s) (signature clazz)
                       (map fst (filter (\<lambda>(k, arg). k \<noteq> ''class'') this_dict)) = None))))"

definition sound_document :: "config \<Rightarrow> bool" where
  "sound_document all_dicts =
     (\<forall>(name, this_dict)\<in>set all_dicts.
        \<forall>(k, arg)\<in>set (filter (\<lambda>(k, arg). k \<noteq> ''class'') this_dict).
          \<forall>s\<in>strings_of arg. sound_reference all_dicts s)"

subsection \<open>Example types and documents\<close>

text \<open>
  A class whose \<open>__init__(self, size)\<close> has no default, a class whose
  \<open>__init__(self, a, b=...)\<close> has one, and a registry that knows both in the module
  \<open>neuralmonkey.pkg\<close>.  \<open>always_constructs\<close> is a world where no constructor raises.
\<close>

definition class_Net :: clazz where
  "class_Net = \<lparr>path = ''pkg.Net'', kind = IsClass,
     signature = \<lparr>spec_args = [''self'', ''size''], spec_defaults = 0, spec_keywords = None\<rparr>\<rparr>"

definition class_X :: clazz where
  "class_X = \<lparr>path = ''pkg.X'', kind = IsClass,
     signature = \<lparr>spec_args = [''self'', ''a'', ''b''], spec_defaults = 1, spec_keywords = None\<rparr>\<rparr>"

definition pkg_only :: "string \<Rightarrow> import_result" where
  "pkg_only module_name =
     (if module_name = ''neuralmonkey.pkg'' then Module [(''Net'', class_Net), (''X'', class_X)]
      else ImportErrorSelf)"

definition always_constructs :: "clazz \<Rightarrow> (string \<times> val) list \<Rightarrow> exc option" where
  "always_constructs clazz args = None"

text \<open>
  A chain of \<open>k + 1\<close> sections, each but the last referring to the next one through
  the optional argument \<open>next\<close> of \<open>Link.__init__(self, next=None)\<close>: the last
  section is met at depth \<open>k\<close> when the first is resolved at depth 0.
\<close>

definition class_Link :: clazz where
  "class_Link = \<lparr>path = ''pkg.Link'', kind = IsClass,
     signature = \<lparr>spec_args = [''self'', ''next''], spec_defaults = 1, spec_keywords = None\<rparr>\<rparr>"

definition chain_name :: "nat \<Rightarrow> string" where
  "chain_name i = replicate (Suc i) (CHR ''c'')"

definition chain_dict :: "nat \<Rightarrow> nat \<Rightarrow> object_dict" where
  "chain_dict k i =
     (''class'', VClass class_Link) #
     (if i < k then [(''next'', VStr (''object:'' @ chain_name (Suc i)))] else [])"

definition chain :: "nat \<Rightarrow> config" where
  "chain k = map (\<lambda>i. (chain_name i, chain_dict k i)) [0..<Suc k]"

text \<open>Two sections that refer to each other.\<close>

definition cycle_AB :: config where
  "cycle_AB =
     [(''A'', [(''class'', VClass class_Link), (''next'', VStr ''object:B'')]),
      (''B'', [(''class'', VClass class_Link), (''next'', VStr ''object:A'')])]"

text \<open>
  A cycle with a reference that leads out of it: \<open>A\<close> refers to the section
  \<open>C\<close>, which can be built, and to \<open>B\<close>, which refers back to \<open>A\<close>.
\<close>

definition cycle_side :: config where
  "cycle_side =
     [(''A'', [(''class'', VClass class_X), (''a'', VStr ''object:C''), (''b'', VStr ''object:B'')]),
      (''B'', [(''class'', VClass class_Link), (''next'', VStr ''object:A'')]),
      (''C'', [(''class'', VClass class_Net), (''size'', VInt 128)])]"

text \<open>The two sections that refer to each other, the first without a \<open>class\<close>.\<close>

definition cycle_no_class :: config where
  "cycle_no_class =
     [(''A'', [(''next'', VStr ''object:B'')]),
      (''B'', [(''class'', VClass class_Link), (''next'', VStr ''object:A'')])]"

text \<open>
  What the parser makes of a document whose key \<open>model\<close> of \<open>main\<close> holds the
  text \<open>object:net\<close>, written without angle brackets, and which declares \<open>net\<close>.
\<close>

definition net_doc :: config where
  "net_doc = [(''main'', [(''model'', VStr ''object:net'')]),
              (''net'', [(''class'', VClass class_Net), (''size'', VInt 128)])]"


section \<open>Properties\<close>

subsection \<open>The splitter\<close>

lemma bad_from_0:
  "bad_from ops (c # s) 0 = ((c = CHR '')'' \<or> c = CHR '']'') \<and> (ops = [] \<or> last ops \<noteq> opener c))"
  by (auto simp: bad_from_def)

lemma bad_from_Suc: "bad_from ops (c # s) (Suc j) = bad_from (track ops c) s j"
  by (simp add: bad_from_def)

lemma split_loop_step:
  assumes "\<not> bad_from ops (c # s) 0"
  shows "split_loop i (c # s) items buf ops =
     split_loop (i + 1) s
       (if c = CHR '','' \<and> ops = [] then items @ [buf] else items)
       (if c = CHR '','' \<and> ops = [] then [] else if c = CHR '' '' \<and> buf = [] then buf else buf @ [c])
       (track ops c)"
proof -
  consider "c = CHR '')''" | "c = CHR '']''" | "c \<noteq> CHR '')'' \<and> c \<noteq> CHR '']''" by blast
  then show ?thesis
  proof cases
    case 1
    with assms have "ops \<noteq> []" "last ops = CHR ''(''" by (simp_all add: bad_from_0 opener_def)
    with 1 show ?thesis by (simp add: track_def)
  next
    case 2
    with assms have "ops \<noteq> []" "last ops = CHR ''[''" by (simp_all add: bad_from_0 opener_def)
    with 2 show ?thesis by (simp add: track_def)
  next
    case 3
    then show ?thesis by (simp add: track_def)
  qed
qed

lemma split_loop_bad:
  assumes "bad_from ops (c # s) 0"
  shows "split_loop i (c # s) items buf ops =
     Inl (if ops = [] then IndexError else InvalidBracketEnd c i)"
proof (cases "c = CHR '')''")
  case True
  with assms have "ops = [] \<or> last ops \<noteq> CHR ''(''" by (simp add: bad_from_0 opener_def)
  with True show ?thesis by auto
next
  case False
  with assms have c: "c = CHR '']''" and "ops = [] \<or> last ops \<noteq> CHR ''[''"
    by (simp_all add: bad_from_0 opener_def)
  then show ?thesis by auto
qed

lemma split_loop_Inl:
  "(split_loop i s items buf ops = Inl e) =
   (\<exists>j. bad_from ops s j \<and> (\<forall>k<j. \<not> bad_from ops s k) \<and>
        e = (if foldl track ops (take j s) = [] then IndexError else InvalidBracketEnd (s ! j) (i + j)))"
proof (induction s arbitrary: i items buf ops)
  case Nil
  show ?case by (simp add: bad_from_def)
next
  case (Cons c s)
  show ?case
  proof (cases "bad_from ops (c # s) 0")
    case True
    have "(\<exists>j. bad_from ops (c # s) j \<and> (\<forall>k<j. \<not> bad_from ops (c # s) k) \<and>
        e = (if foldl track ops (take j (c # s)) = [] then IndexError
             else InvalidBracketEnd ((c # s) ! j) (i + j)))
      = (e = (if ops = [] then IndexError else InvalidBracketEnd c i))"
    proof
      assume "\<exists>j. bad_from ops (c # s) j \<and> (\<forall>k<j. \<not> bad_from ops (c # s) k) \<and>
        e = (if foldl track ops (take j (c # s)) = [] then IndexError
             else InvalidBracketEnd ((c # s) ! j) (i + j))"
      then obtain j where j: "\<forall>k<j. \<not> bad_from ops (c # s) k"
        and e: "e = (if foldl track ops (take j (c # s)) = [] then IndexError
             else InvalidBracketEnd ((c # s) ! j) (i + j))" by blast
      from j True have "j = 0" by (cases j) auto
      with e show "e = (if ops = [] then IndexError else InvalidBracketEnd c i)" by simp
    next
      assume "e = (if ops = [] then IndexError else InvalidBracketEnd c i)"
      with True show "\<exists>j. bad_from ops (c # s) j \<and> (\<forall>k<j. \<not> bad_from ops (c # s) k) \<and>
        e = (if foldl track ops (take j (c # s)) = [] then IndexError
             else InvalidBracketEnd ((c # s) ! j) (i + j))"
        by (intro exI [of _ 0]) simp
    qed
    with split_loop_bad [OF True, of i items buf] show ?thesis by auto
  next
    case False
    have "(\<exists>j. bad_from ops (c # s) j \<and> (\<forall>k<j. \<not> bad_from ops (c # s) k) \<and>
        e = (if foldl track ops (take j (c # s)) = [] then IndexError
             else InvalidBracketEnd ((c # s) ! j) (i + j)))
      = (\<exists>j. bad_from (track ops c) s j \<and> (\<forall>k<j. \<not> bad_from (track ops c) s k) \<and>
        e = (if foldl track (track ops c) (take j s) = [] then IndexError
             else InvalidBracketEnd (s ! j) (i + 1 + j)))" (is "?L = ?R")
    proof
      assume ?L
      then obtain j where b: "bad_from ops (c # s) j" and m: "\<forall>k<j. \<not> bad_from ops (c # s) k"
        and e: "e = (if foldl track ops (take j (c # s)) = [] then IndexError
             else InvalidBracketEnd ((c # s) ! j) (i + j))" by blast
      from b False obtain j' where j': "j = Suc j'" by (cases j) auto
      have "\<forall>k<j'. \<not> bad_from (track ops c) s k"
        using m j' by (auto simp: bad_from_Suc [symmetric])
      with b e j' show ?R
        by (intro exI [of _ j']) (simp add: bad_from_Suc)
    next
      assume ?R
      then obtain j where b: "bad_from (track ops c) s j"
        and m: "\<forall>k<j. \<not> bad_from (track ops c) s k"
        and e: "e = (if foldl track (track ops c) (take j s) = [] then IndexError
             else InvalidBracketEnd (s ! j) (i + 1 + j))" by blast
      have "\<forall>k<Suc j. \<not> bad_from ops (c # s) k"
      proof (intro allI impI)
        fix k assume "k < Suc j"
        then show "\<not> bad_from ops (c # s) k"
          using m False by (cases k) (auto simp: bad_from_Suc)
      qed
      with b e show ?L
        by (intro exI [of _ "Suc j"]) (simp add: bad_from_Suc)
    qed
    with Cons.IH [of "i + 1" _ _ "track ops c"] show ?thesis
      by (simp only: split_loop_step [OF False])
  qed
qed

lemma bad_close_from: "bad_close s i = bad_from [] s i"
  by (simp add: bad_close_def bad_from_def open_after_def)

text \<open>
  C8 (amended).  The splitter fails exactly when some closing bracket does not meet
  its opening bracket on top of the stack of open brackets.  At the first such
  position \<open>i\<close> (counted from 0) it raises \<open>IndexError\<close> when no bracket is open,
  and otherwise the bracket-mismatch error with the character and the position \<open>i\<close>.
  Nothing is checked at the end of the input, so brackets left open there are not an
  error.
\<close>

theorem split_on_commas_fails_iff:
  "(split_on_commas s = Inl e) =
   (\<exists>i. bad_close s i \<and> (\<forall>j<i. \<not> bad_close s j) \<and>
        e = (if open_after (take i s) = [] then IndexError else InvalidBracketEnd (s ! i) i))"
  using split_loop_Inl [of 0 s "[]" "[]" "[]" e]
  by (simp add: split_on_commas_def bad_close_from open_after_def)

text \<open>
  An opened bracket that is never closed is not an error: the splitter returns the
  single item it has read.
\<close>

theorem split_on_commas_unclosed_counterexample: "open_after ''(a'' = ''('' \<and> split_on_commas ''(a'' = Inr [''(a'']"
  by (simp add: open_after_def track_def split_on_commas_def)

text \<open>
  The text \<open>a, (b]\<close>: the first closing bracket without its opening bracket on top is
  at index 5, and that index is reported.
\<close>

theorem split_on_commas_fails_iff_witness:
  "bad_close ''a, (b]'' 5 \<and> \<not> (\<exists>j<5. bad_close ''a, (b]'' j) \<and>
   split_on_commas ''a, (b]'' = Inl (InvalidBracketEnd CHR '']'' 5)"
proof -
  have a: "bad_close ''a, (b]'' 5"
    by (simp add: bad_close_def open_after_def track_def opener_def)
  have b: "\<forall>j<5. \<not> bad_close ''a, (b]'' j"
    by (simp add: bad_close_def nth_Cons' )
  have c: "InvalidBracketEnd CHR '']'' 5 =
    (if open_after (take 5 ''a, (b]'') = [] then IndexError else InvalidBracketEnd (''a, (b]'' ! 5) 5)"
    by (simp add: open_after_def track_def)
  from split_on_commas_fails_iff [of "''a, (b]''" "InvalidBracketEnd CHR '']'' 5", THEN iffD2,
      OF exI, OF conjI [OF a conjI [OF b c]]] a b
  show ?thesis by blast
qed

subsection \<open>The value formatter on nested lists\<close>

lemmas regex_defs = INTEGER_match_def FLOAT_match_def CLASS_NAME_match_def OBJECT_REF_match_def
  OBJECT_NAME_match_def LIST_match_def TUPLE_match_def KEY_VALUE_PAIR_match_def
  bracketed_ident_def before_dollar_def is_digit_def is_letter_def is_ident_char_def
  is_ident_def is_segment_def split_dot_def exponent_match_def

text \<open>
  C7.  The pattern \<open>LIST\<close> ends its group at the first \<open>]\<close>, so of the nested
  literal \<open>[[1,2],[3,4]]\<close> only the text \<open>[1,2\<close> reaches the splitter: the result is
  a list holding that one raw string, not the list of the two inner lists.
\<close>

theorem format_value_nested_list:
  "format_value import_module ''[[1,2],[3,4]]'' = Inr (VList [VStr ''[1,2''])"
  by (simp add: format_value.simps regex_defs split_on_commas_def)

subsection \<open>The check of the arguments against the signature\<close>

lemma fold_check_key:
  "fold (check_key all_args) keys (required_args, additional_args) =
     (required_args - set keys, additional_args \<union> (set keys - all_args))"
  by (induction keys arbitrary: required_args additional_args) (auto simp: check_key_def)

lemma check_args_eq:
  assumes "spec_keywords arg_spec = None" "spec_args arg_spec = first # others"
  shows "check_args name arg_spec keys =
    (let required =
           (if first = ''self''
            then set (slice (spec_args arg_spec) 1 (- int (spec_defaults arg_spec)))
            else set (slice (spec_args arg_spec) 0 (- int (spec_defaults arg_spec))))
     in if required - set keys \<noteq> {} then Some (MissingRequiredArgs name (required - set keys))
        else if set keys - set (spec_args arg_spec) \<noteq> {}
        then Some (UnexpectedArgument name (set keys - set (spec_args arg_spec)))
        else None)"
  using assms by (simp add: check_args_def fold_check_key Let_def)

lemmas build_defs = callable_def check_args_def check_key_def slice_def py_index_def
  class_Net_def class_X_def always_constructs_def empty_state_def Let_def

text \<open>
  C3.  \<open>Net.__init__(self, size)\<close> has no default, so the slice
  \<open>args[1:-len(defaults)]\<close> is \<open>args[1:0]\<close>, the empty list: no parameter counts as
  required.  For a section \<open>net\<close> that gives no argument at all the check of the
  signature passes.  For a section that gives only \<open>c\<close>, and so omits \<open>size\<close>,
  the build fails, whatever the constructors do, with the error for the unexpected
  argument, which names \<open>c\<close>; the missing \<open>size\<close> is named nowhere.
\<close>

theorem get_object_no_default_reports_unexpected:
  "check_args ''net'' (signature class_Net) [] = None \<and>
   check_args ''net'' (signature class_Net) [''c''] = Some (UnexpectedArgument ''net'' {''c''}) \<and>
   get_object construct (VStr ''object:net'')
     [(''net'', [(''class'', VClass class_Net), (''c'', VInt 1)])] empty_state {} 0
   = Inl (UnexpectedArgument ''net'' {''c''})"
  by (simp add: build_defs)

lemma required_slice:
  assumes "spec_args arg_spec = first # others" "0 < spec_defaults arg_spec"
  shows "(if first = ''self''
          then set (slice (spec_args arg_spec) 1 (- int (spec_defaults arg_spec)))
          else set (slice (spec_args arg_spec) 0 (- int (spec_defaults arg_spec))))
         = required_parameters arg_spec"
proof -
  have i: "py_index (length (spec_args arg_spec)) (- int (spec_defaults arg_spec))
      = length (spec_args arg_spec) - spec_defaults arg_spec"
    using assms(2) by (simp add: py_index_def)
  have j: "py_index (length (spec_args arg_spec)) 1 = 1" "py_index (length (spec_args arg_spec)) 0 = 0"
    using assms(1) by (simp_all add: py_index_def)
  show ?thesis
    unfolding slice_def i j required_parameters_def Let_def
    using assms(1)
    by (cases "length (spec_args arg_spec) - spec_defaults arg_spec") auto
qed

text \<open>
  C4 (amended).  For a type that takes no arbitrary keyword arguments and has at least
  one parameter with a default: when the supplied names leave out a required parameter
  (a formal parameter without a default, the receiver apart), \<open>get_object\<close> raises
  the error for the missing parameters, which names the missing set only, also when
  unexpected names were supplied; the error for the unexpected names is raised only
  when no required parameter is missing.  The two sets are never reported together.
\<close>

theorem get_object_missing_and_unexpected:
  assumes "value \<notin> ignore_names" and "existing_objects st value = None"
    and "prefix ''object:'' value"
    and "map_of all_dicts (drop 7 value) = Some this_dict" and "depth \<le> 20"
    and "map_of this_dict ''class'' = Some class_value"
    and "callable class_value = Some clazz"
    and "process_args construct (filter (\<lambda>(k, arg). k \<noteq> ''class'') this_dict)
           all_dicts st ignore_names (depth + 1) = Inr (args, st')"
    and "spec_keywords (signature clazz) = None"
    and "spec_args (signature clazz) \<noteq> []"
    and "0 < spec_defaults (signature clazz)"
    and "missing = required_parameters (signature clazz) - set (map fst args)"
    and "unexpected = set (map fst args) - set (spec_args (signature clazz))"
    and "missing \<noteq> {} \<or> unexpected \<noteq> {}"
  shows "get_object construct (VStr value) all_dicts st ignore_names depth =
           Inl (if missing \<noteq> {} then MissingRequiredArgs (drop 7 value) missing
                else UnexpectedArgument (drop 7 value) unexpected)"
proof -
  from assms(10) obtain first others where a: "spec_args (signature clazz) = first # others"
    by (cases "spec_args (signature clazz)") auto
  note r = required_slice [OF a assms(11)]
  have "check_args (drop 7 value) (signature clazz) (map fst args) =
      Some (if missing \<noteq> {} then MissingRequiredArgs (drop 7 value) missing
            else UnexpectedArgument (drop 7 value) unexpected)"
    using assms(12,13,14) unfolding check_args_eq [OF assms(9) a] r Let_def by auto
  with assms(1-8) show ?thesis by simp
qed

text \<open>
  The section \<open>x\<close> of type \<open>X(self, a, b=...)\<close> gives only \<open>c\<close>: \<open>a\<close> is missing
  and \<open>c\<close> is unexpected; the error names \<open>a\<close>.
\<close>

theorem get_object_missing_and_unexpected_witness:
  "get_object always_constructs (VStr ''object:x'')
     [(''x'', [(''class'', VClass class_X), (''c'', VInt 1)])] empty_state {} 0
   = Inl (MissingRequiredArgs ''x'' {''a''})"
proof -
  have "get_object always_constructs (VStr ''object:x'')
     [(''x'', [(''class'', VClass class_X), (''c'', VInt 1)])] empty_state {} 0
   = Inl (if {''a''} \<noteq> {} then MissingRequiredArgs (drop 7 ''object:x'') {''a''}
          else UnexpectedArgument (drop 7 ''object:x'') {''c''})"
    by (rule get_object_missing_and_unexpected
          [where this_dict = "[(''class'', VClass class_X), (''c'', VInt 1)]"
             and class_value = "VClass class_X" and clazz = class_X and st' = empty_state
             and args = "[(''c'', VInt 1)]"])
       (auto simp: build_defs required_parameters_def)
  then show ?thesis by simp
qed

text \<open>
  A whole load of that document: the only error raised is the one for the missing
  parameter \<open>a\<close>; the unexpected \<open>c\<close> appears nowhere in it.
\<close>

theorem load_missing_and_unexpected_counterexample:
  "load_config_dicts always_constructs
     [(''main'', [(''m'', VStr ''object:x'')]),
      (''x'', [(''class'', VClass class_X), (''c'', VInt 1)])] {}
   = Inl (ConfigBuildException ''m'' (MissingRequiredArgs ''x'' {''a''}))"
  by (simp add: load_config_dicts_def build_defs)

subsection \<open>Sequences\<close>

lemma get_objects_elementwise:
  "get_objects construct vs all_dicts st ignore_names depth = Inr (rs, st') \<Longrightarrow>
   \<exists>sts. length sts = length vs + 1 \<and> length rs = length vs \<and> sts ! 0 = st \<and>
         sts ! length vs = st' \<and>
         (\<forall>i<length vs. get_object construct (vs ! i) all_dicts (sts ! i) ignore_names depth
            = Inr (rs ! i, sts ! Suc i))"
proof (induction vs arbitrary: st rs)
  case Nil
  then show ?case by (intro exI [of _ "[st]"]) simp
next
  case (Cons v vs)
  from Cons.prems obtain r st1 rs1 where
    v: "get_object construct v all_dicts st ignore_names depth = Inr (r, st1)"
    and vs: "get_objects construct vs all_dicts st1 ignore_names depth = Inr (rs1, st')"
    and rs: "rs = r # rs1"
    by (auto split: sum.splits)
  from Cons.IH [OF vs] obtain sts where
    sts: "length sts = length vs + 1" "length rs1 = length vs" "sts ! 0 = st1"
      "sts ! length vs = st'"
      "\<forall>i<length vs. get_object construct (vs ! i) all_dicts (sts ! i) ignore_names depth
            = Inr (rs1 ! i, sts ! Suc i)"
    by blast
  have "\<forall>i<length (v # vs).
      get_object construct ((v # vs) ! i) all_dicts ((st # sts) ! i) ignore_names depth
        = Inr (rs ! i, (st # sts) ! Suc i)"
  proof (intro allI impI)
    fix i assume "i < length (v # vs)"
    then show "get_object construct ((v # vs) ! i) all_dicts ((st # sts) ! i) ignore_names depth
        = Inr (rs ! i, (st # sts) ! Suc i)"
      using v sts rs by (cases i) auto
  qed
  with sts rs show ?case
    by (intro exI [of _ "st # sts"]) simp
qed

text \<open>
  C5 (amended).  Resolving a list or a tuple gives a list in both cases: the list of
  the resolutions of the members, each at \<open>depth + 1\<close>, from left to right, every
  member starting from the state its predecessor left (\<open>sts\<close> are these states).
\<close>

theorem get_object_sequence:
  assumes "seq = VList vs \<or> seq = VTuple vs"
    and "get_object construct seq all_dicts st ignore_names depth = Inr (r, st')"
  shows "\<exists>rs sts. r = VList rs \<and> length rs = length vs \<and> length sts = length vs + 1 \<and>
           sts ! 0 = st \<and> sts ! length vs = st' \<and>
           (\<forall>i<length vs.
              get_object construct (vs ! i) all_dicts (sts ! i) ignore_names (depth + 1)
                = Inr (rs ! i, sts ! Suc i))"
proof -
  from assms obtain rs where
    rs: "get_objects construct vs all_dicts st ignore_names (depth + 1) = Inr (rs, st')"
    and r: "r = VList rs"
    by (auto split: sum.splits)
  from get_objects_elementwise [OF rs] r show ?thesis by blast
qed

text \<open>The tuple \<open>(1, abc)\<close>, resolved in the empty state.\<close>

theorem get_object_sequence_witness:
  "\<exists>rs sts. VList [VInt 1, VStr ''abc''] = VList rs \<and> length rs = length [VInt 1, VStr ''abc''] \<and>
      length sts = length [VInt 1, VStr ''abc''] + 1 \<and>
      sts ! 0 = empty_state \<and> sts ! length [VInt 1, VStr ''abc''] = empty_state \<and>
      (\<forall>i<length [VInt 1, VStr ''abc''].
         get_object always_constructs ([VInt 1, VStr ''abc''] ! i) [] (sts ! i) {} (0 + 1)
           = Inr (rs ! i, sts ! Suc i))"
  by (rule get_object_sequence [where seq = "VTuple [VInt 1, VStr ''abc'']"])
     (simp_all add: build_defs)

text \<open>The tuple \<open>(1, abc)\<close> does not stay a tuple: its resolution is a list.\<close>

theorem get_object_tuple_counterexample:
  "get_object always_constructs (VTuple [VInt 1, VStr ''abc'']) [] empty_state {} 0
     = Inr (VList [VInt 1, VStr ''abc''], empty_state)"
  by (simp add: build_defs)

subsection \<open>The line number of a syntax error\<close>

lemma parse_line_error:
  assumes "parse_line import_module time_stamp i raw_line state = Inl e"
  shows "\<exists>msg cause. e = IniSyntaxError i msg cause \<and>
           (\<forall>n j. msg = DuplicitObjectKey n j \<or> msg = DuplicitKey n j \<longrightarrow> j = i)"
  using assms
  by (auto simp: parse_line_def Let_def split: option.splits if_splits sum.splits prod.splits)

lemma parse_lines_error:
  "parse_lines import_module time_stamp k lines state = Inl e \<Longrightarrow>
   \<exists>j state'. j < length lines \<and>
      parse_lines import_module time_stamp k (take j lines) state = Inr state' \<and>
      parse_line import_module time_stamp (k + j) (lines ! j) state' = Inl e"
proof (induction lines arbitrary: k state)
  case Nil
  then show ?case by simp
next
  case (Cons line rest)
  show ?case
  proof (cases "parse_line import_module time_stamp k line state")
    case (Inl e')
    with Cons.prems have "e' = e" by simp
    with Inl show ?thesis by (intro exI [of _ 0] exI [of _ state]) simp
  next
    case (Inr state1)
    with Cons.prems have "parse_lines import_module time_stamp (k + 1) rest state1 = Inl e"
      by simp
    from Cons.IH [OF this] obtain j state' where
      "j < length rest"
      "parse_lines import_module time_stamp (k + 1) (take j rest) state1 = Inr state'"
      "parse_line import_module time_stamp (k + 1 + j) (rest ! j) state' = Inl e"
      by blast
    with Inr show ?thesis by (intro exI [of _ "Suc j"] exI [of _ state']) simp
  qed
qed

text \<open>
  C9 (amended).  Every error of the parser is an \<open>IniSyntaxError\<close> whose line number
  is the index, counted from 0, of the offending line in the input (its 1-based
  position minus one): the lines before it were read without error, and reading the
  line at that index raised the error.  The number inside the message of a duplicate
  section or key is the same index.
\<close>

theorem get_config_dicts_error_line:
  assumes "get_config_dicts import_module time_stamp config_file = Inl e"
  shows "\<exists>i msg cause state.
           e = IniSyntaxError i msg cause \<and> i < length config_file \<and>
           (\<forall>n j. msg = DuplicitObjectKey n j \<or> msg = DuplicitKey n j \<longrightarrow> j = i) \<and>
           parse_lines import_module time_stamp 0 (take i config_file) ([], None) = Inr state \<and>
           parse_line import_module time_stamp i (config_file ! i) state = Inl e"
proof -
  from assms have "parse_lines import_module time_stamp 0 config_file ([], None) = Inl e"
    by (simp add: get_config_dicts_def split: sum.splits)
  from parse_lines_error [OF this] obtain j state' where
    j: "j < length config_file"
    "parse_lines import_module time_stamp 0 (take j config_file) ([], None) = Inr state'"
    "parse_line import_module time_stamp j (config_file ! j) state' = Inl e"
    by auto
  from parse_line_error [OF j(3)] j show ?thesis by blast
qed

lemmas parse_defs = get_config_dicts_def parse_line_def strip_def is_space_def add_key_def
  sub_time.simps format_value.simps Let_def

text \<open>
  A document whose second line opens the section \<open>main\<close> again: the error carries 1,
  the index of that line.
\<close>

theorem get_config_dicts_error_line_witness:
  "\<exists>i msg cause state.
      IniSyntaxError 1 (DuplicitObjectKey ''main'' 1) None = IniSyntaxError i msg cause \<and>
      i < length [''[main]'', ''[main]''] \<and>
      (\<forall>n j. msg = DuplicitObjectKey n j \<or> msg = DuplicitKey n j \<longrightarrow> j = i) \<and>
      parse_lines pkg_only ''2016-01-01-00-00-00'' 0 (take i [''[main]'', ''[main]''])
        ([], None) = Inr state \<and>
      parse_line pkg_only ''2016-01-01-00-00-00'' i ([''[main]'', ''[main]''] ! i) state =
        Inl (IniSyntaxError 1 (DuplicitObjectKey ''main'' 1) None)"
  by (rule get_config_dicts_error_line) (simp add: parse_defs regex_defs)

text \<open>
  An unrecognised first line, a key repeated on the third line, and a value on the
  second line that fails to format: the errors carry 0, 2 and 1, not 1, 3 and 2.
\<close>

theorem get_config_dicts_line_counterexample:
  "get_config_dicts pkg_only ''2016-01-01-00-00-00'' [''foo''] =
     Inl (IniSyntaxError 0 (UnknownString ''foo'') None) \<and>
   get_config_dicts pkg_only ''2016-01-01-00-00-00'' [''[main]'', ''a=1'', ''a=2''] =
     Inl (IniSyntaxError 2 (DuplicitKey ''a'' 2) None) \<and>
   get_config_dicts pkg_only ''2016-01-01-00-00-00'' [''[main]'', ''a=[1,x]''] =
     Inl (IniSyntaxError 1 ErrorMessage (Some (ListNotSameType [TInt, TStr])))"
  by (simp add: parse_defs regex_defs split_on_commas_def int_of_string_def digit_value_def)

subsection \<open>The failures of a resolution\<close>

lemma get_object_VStr_Inl:
  assumes "get_object construct (VStr value) all_dicts st ignore_names depth = Inl e"
  obtains
    (undefined) "prefix ''object:'' value"
      "map_of all_dicts (drop 7 value) = None" "e = ObjectNotDefined (drop 7 value)"
  | (deep) this_dict where
      "prefix ''object:'' value"
      "map_of all_dicts (drop 7 value) = Some this_dict" "20 < depth" "e = DepthExceeded"
  | (no_class) this_dict where
      "prefix ''object:'' value" "map_of all_dicts (drop 7 value) = Some this_dict"
      "map_of this_dict ''class'' = None" "e = ClassNotDefined (drop 7 value)"
  | (not_callable) this_dict class_value where
      "prefix ''object:'' value" "map_of all_dicts (drop 7 value) = Some this_dict"
      "map_of this_dict ''class'' = Some class_value" "callable class_value = None"
      "e = NotTypeOrFunction (drop 7 value)"
  | (argument) this_dict class_value clazz where
      "value \<notin> ignore_names" "existing_objects st value = None" "prefix ''object:'' value"
      "map_of all_dicts (drop 7 value) = Some this_dict" "depth \<le> 20"
      "map_of this_dict ''class'' = Some class_value" "callable class_value = Some clazz"
      "process_args construct (filter (\<lambda>(k, arg). k \<noteq> ''class'') this_dict) all_dicts st
         ignore_names (depth + 1) = Inl e"
  | (signature) this_dict class_value clazz args st1 where
      "prefix ''object:'' value" "map_of all_dicts (drop 7 value) = Some this_dict"
      "map_of this_dict ''class'' = Some class_value" "callable class_value = Some clazz"
      "process_args construct (filter (\<lambda>(k, arg). k \<noteq> ''class'') this_dict) all_dicts st
         ignore_names (depth + 1) = Inr (args, st1)"
      "check_args (drop 7 value) (signature clazz) (map fst args) = Some e"
  | (constructor) clazz args x where
      "construct clazz args = Some x" "e = ConfigBuildException (drop 7 value) x"
  using assms
  by (auto simp: Let_def split: if_splits option.splits sum.splits prod.splits)

lemma check_args_not_depth: "check_args name arg_spec keys \<noteq> Some DepthExceeded"
  by (auto simp: check_args_def Let_def split: list.splits)

text \<open>The guard of the depth fires only for a reference that stands above depth 20.\<close>

lemma depth_exceeded_too_deep:
  shows "get_object construct v all_dicts st ignore_names depth = Inl DepthExceeded \<Longrightarrow>
      too_deep all_dicts depth v"
    and "get_objects construct vs all_dicts st ignore_names depth = Inl DepthExceeded \<Longrightarrow>
      \<exists>v\<in>set vs. too_deep all_dicts depth v"
    and "process_args construct items all_dicts st ignore_names depth = Inl DepthExceeded \<Longrightarrow>
      \<exists>(k, arg)\<in>set items. too_deep all_dicts depth arg"
proof (induction construct v all_dicts st ignore_names depth
    and construct vs all_dicts st ignore_names depth
    and construct items all_dicts st ignore_names depth
    rule: get_object_get_objects_process_args.induct)
  case (1 construct vs all_dicts st ignore_names depth)
  then show ?case by (auto split: sum.splits)
next
  case (2 construct vs all_dicts st ignore_names depth)
  then show ?case by (auto split: sum.splits)
next
  case (3 construct s all_dicts st ignore_names depth)
  from "3.prems" show ?case
  proof (cases rule: get_object_VStr_Inl)
    case (deep this_dict)
    then show ?thesis by simp
  next
    case (argument this_dict class_value clazz)
    from argument have "\<exists>(k, arg)\<in>set (filter (\<lambda>(k, arg). k \<noteq> ''class'') this_dict).
        too_deep all_dicts (depth + 1) arg"
      by (intro "3.IH" [of "drop 7 s" this_dict class_value clazz]) auto
    with argument show ?thesis by simp
  next
    case (signature this_dict class_value clazz args st1)
    with check_args_not_depth show ?thesis by blast
  qed simp_all
next
  case (11 construct val rest all_dicts st ignore_names depth)
  show ?case
  proof (cases "get_object construct val all_dicts st ignore_names depth")
    case (Inl e)
    with "11.prems" have "get_object construct val all_dicts st ignore_names depth = Inl DepthExceeded"
      by simp
    from "11.IH"(1) [OF this] show ?thesis by simp
  next
    case (Inr p)
    obtain r st1 where p: "p = (r, st1)" by (cases p)
    with Inr have a: "get_object construct val all_dicts st ignore_names depth = Inr (r, st1)"
      by simp
    with "11.prems" have "get_objects construct rest all_dicts st1 ignore_names depth = Inl DepthExceeded"
      by (simp split: sum.splits prod.splits)
    from "11.IH"(2) [OF a refl this] show ?thesis by simp
  qed
next
  case (13 construct k arg rest all_dicts st ignore_names depth)
  show ?case
  proof (cases "get_object construct arg all_dicts st ignore_names depth")
    case (Inl e)
    with "13.prems" have "get_object construct arg all_dicts st ignore_names depth = Inl DepthExceeded"
      by simp
    from "13.IH"(1) [OF this] show ?thesis by simp
  next
    case (Inr p)
    obtain r st1 where p: "p = (r, st1)" by (cases p)
    with Inr have a: "get_object construct arg all_dicts st ignore_names depth = Inr (r, st1)"
      by simp
    with "13.prems" have "process_args construct rest all_dicts st1 ignore_names depth = Inl DepthExceeded"
      by (simp split: sum.splits prod.splits)
    from "13.IH"(2) [OF a refl this] show ?thesis by simp
  qed
qed simp_all

lemma process_args_keys:
  "process_args construct items all_dicts st ignore_names depth = Inr (args, st') \<Longrightarrow>
     map fst args = map fst items"
  by (induction items arbitrary: st args) (auto split: sum.splits prod.splits)

lemma sound_reference_section:
  assumes "sound_reference all_dicts s" "prefix ''object:'' s"
  obtains this_dict class_value clazz where
    "map_of all_dicts (drop 7 s) = Some this_dict" "map_of this_dict ''class'' = Some class_value"
    "callable class_value = Some clazz"
    "check_args (drop 7 s) (signature clazz)
       (map fst (filter (\<lambda>(k, arg). k \<noteq> ''class'') this_dict)) = None"
  using assms unfolding sound_reference_def by (auto split: option.splits)

lemma sound_document_arguments:
  assumes "sound_document all_dicts" "map_of all_dicts name = Some this_dict"
  shows "\<forall>(k, arg)\<in>set (filter (\<lambda>(k, arg). k \<noteq> ''class'') this_dict).
           \<forall>s\<in>strings_of arg. sound_reference all_dicts s"
proof -
  from assms(2) have "(name, this_dict) \<in> set all_dicts" by (rule map_of_SomeD)
  with assms(1) show ?thesis unfolding sound_document_def by blast
qed

text \<open>
  Where every reference is sound, a resolution can only fail by the guard of the depth
  or by a constructor that raises.
\<close>

lemma sound_failure:
  shows "get_object construct v all_dicts st ignore_names depth = Inl e \<Longrightarrow>
      sound_document all_dicts \<Longrightarrow> (\<forall>s\<in>strings_of v. sound_reference all_dicts s) \<Longrightarrow>
      e = DepthExceeded \<or> (\<exists>n c a x. construct c a = Some x \<and> e = ConfigBuildException n x)"
    and "get_objects construct vs all_dicts st ignore_names depth = Inl e \<Longrightarrow>
      sound_document all_dicts \<Longrightarrow> (\<forall>v\<in>set vs. \<forall>s\<in>strings_of v. sound_reference all_dicts s) \<Longrightarrow>
      e = DepthExceeded \<or> (\<exists>n c a x. construct c a = Some x \<and> e = ConfigBuildException n x)"
    and "process_args construct items all_dicts st ignore_names depth = Inl e \<Longrightarrow>
      sound_document all_dicts \<Longrightarrow>
      (\<forall>(k, arg)\<in>set items. \<forall>s\<in>strings_of arg. sound_reference all_dicts s) \<Longrightarrow>
      e = DepthExceeded \<or> (\<exists>n c a x. construct c a = Some x \<and> e = ConfigBuildException n x)"
proof (induction construct v all_dicts st ignore_names depth
    and construct vs all_dicts st ignore_names depth
    and construct items all_dicts st ignore_names depth
    rule: get_object_get_objects_process_args.induct)
  case (1 construct vs all_dicts st ignore_names depth)
  from "1.prems"(1) have "get_objects construct vs all_dicts st ignore_names (depth + 1) = Inl e"
    by (auto split: sum.splits prod.splits)
  moreover from "1.prems"(3) have "\<forall>v\<in>set vs. \<forall>s\<in>strings_of v. sound_reference all_dicts s"
    by auto
  ultimately show ?case using "1.IH" "1.prems"(2) by blast
next
  case (2 construct vs all_dicts st ignore_names depth)
  from "2.prems"(1) have "get_objects construct vs all_dicts st ignore_names (depth + 1) = Inl e"
    by (auto split: sum.splits prod.splits)
  moreover from "2.prems"(3) have "\<forall>v\<in>set vs. \<forall>s\<in>strings_of v. sound_reference all_dicts s"
    by auto
  ultimately show ?case using "2.IH" "2.prems"(2) by blast
next
  case (3 construct s all_dicts st ignore_names depth)
  from "3.prems"(3) have sr: "sound_reference all_dicts s" by simp
  from "3.prems"(1) show ?case
  proof (cases rule: get_object_VStr_Inl)
    case undefined
    with sr show ?thesis by (auto elim: sound_reference_section)
  next
    case (deep this_dict)
    then show ?thesis by simp
  next
    case (no_class this_dict)
    with sr show ?thesis by (auto elim: sound_reference_section)
  next
    case (not_callable this_dict class_value)
    with sr show ?thesis by (auto elim: sound_reference_section)
  next
    case (argument this_dict class_value clazz)
    note args = sound_document_arguments [OF "3.prems"(2) argument(4)]
    from argument show ?thesis
      by (intro "3.IH" [of "drop 7 s" this_dict class_value clazz] "3.prems"(2) args) auto
  next
    case (signature this_dict class_value clazz args st1)
    from process_args_keys [OF signature(5)]
    have "map fst args = map fst (filter (\<lambda>(k, arg). k \<noteq> ''class'') this_dict)" .
    with signature sr show ?thesis by (auto elim: sound_reference_section)
  next
    case (constructor clazz args x)
    then show ?thesis by blast
  qed
next
  case (11 construct val rest all_dicts st ignore_names depth)
  from "11.prems"(3) have v: "\<forall>s\<in>strings_of val. sound_reference all_dicts s"
    and r: "\<forall>v\<in>set rest. \<forall>s\<in>strings_of v. sound_reference all_dicts s" by auto
  show ?case
  proof (cases "get_object construct val all_dicts st ignore_names depth")
    case (Inl e')
    with "11.prems"(1) have "get_object construct val all_dicts st ignore_names depth = Inl e"
      by simp
    from "11.IH"(1) [OF this "11.prems"(2) v] show ?thesis .
  next
    case (Inr p)
    obtain r' st1 where p: "p = (r', st1)" by (cases p)
    with Inr have a: "get_object construct val all_dicts st ignore_names depth = Inr (r', st1)"
      by simp
    with "11.prems"(1) have "get_objects construct rest all_dicts st1 ignore_names depth = Inl e"
      by (simp split: sum.splits prod.splits)
    from "11.IH"(2) [OF a refl this "11.prems"(2) r] show ?thesis .
  qed
next
  case (13 construct k arg rest all_dicts st ignore_names depth)
  from "13.prems"(3) have v: "\<forall>s\<in>strings_of arg. sound_reference all_dicts s"
    and r: "\<forall>(k, arg)\<in>set rest. \<forall>s\<in>strings_of arg. sound_reference all_dicts s" by auto
  show ?case
  proof (cases "get_object construct arg all_dicts st ignore_names depth")
    case (Inl e')
    with "13.prems"(1) have "get_object construct arg all_dicts st ignore_names depth = Inl e"
      by simp
    from "13.IH"(1) [OF this "13.prems"(2) v] show ?thesis .
  next
    case (Inr p)
    obtain r' st1 where p: "p = (r', st1)" by (cases p)
    with Inr have a: "get_object construct arg all_dicts st ignore_names depth = Inr (r', st1)"
      by simp
    with "13.prems"(1) have "process_args construct rest all_dicts st1 ignore_names depth = Inl e"
      by (simp split: sum.splits prod.splits)
    from "13.IH"(2) [OF a refl this "13.prems"(2) r] show ?thesis .
  qed
qed simp_all

lemma sound_resolves:
  assumes "sound_document all_dicts" "\<forall>s\<in>strings_of v. sound_reference all_dicts s"
    "\<forall>clazz args. construct clazz args = None" "\<not> too_deep all_dicts depth v"
  shows "\<exists>r st'. get_object construct v all_dicts st ignore_names depth = Inr (r, st')"
proof (cases "get_object construct v all_dicts st ignore_names depth")
  case (Inl e)
  from sound_failure(1) [OF Inl assms(1,2)] assms(3) have "e = DepthExceeded" by simp
  with Inl depth_exceeded_too_deep(1) assms(4) show ?thesis by blast
next
  case (Inr p)
  then show ?thesis by (cases p) simp
qed

subsection \<open>Strings that begin with the marker prefix\<close>

lemma before_dollar_Cons:
  "c \<noteq> CHR 0x0A \<Longrightarrow> before_dollar (c # s) = c # before_dollar s"
  by (simp add: before_dollar_def)

lemma before_dollar_object: "before_dollar (''object:'' @ rest) = ''object:'' @ before_dollar rest"
  by (simp add: before_dollar_Cons)

lemma hd_split_dot_loop:
  "split_dot_loop part s \<noteq> [] \<and> hd (split_dot_loop part s) = part @ takeWhile (\<lambda>c. c \<noteq> CHR ''.'') s"
  by (induction s arbitrary: part) auto

lemma not_CLASS_NAME_object: "\<not> CLASS_NAME_match (''object:'' @ rest)"
proof
  assume "CLASS_NAME_match (''object:'' @ rest)"
  then have all: "list_all is_segment (split_dot (''object:'' @ before_dollar rest))"
    by (simp only: CLASS_NAME_match_def Let_def before_dollar_object)
  have "split_dot (''object:'' @ before_dollar rest) \<noteq> []"
    and "hd (split_dot (''object:'' @ before_dollar rest))
           = ''object:'' @ takeWhile (\<lambda>c. c \<noteq> CHR ''.'') (before_dollar rest)"
    using hd_split_dot_loop [of "[]" "''object:'' @ before_dollar rest"]
    by (simp_all add: split_dot_def)
  with all have "is_segment (''object:'' @ takeWhile (\<lambda>c. c \<noteq> CHR ''.'') (before_dollar rest))"
    by (cases "split_dot (''object:'' @ before_dollar rest)") auto
  then show False
    by (simp add: is_segment_def is_ident_def is_ident_char_def is_letter_def is_digit_def)
qed

lemma format_value_object_prefix:
  "format_value import_module (''object:'' @ rest) = Inr (VStr (''object:'' @ rest))"
proof -
  define s where "s = ''object:'' @ rest"
  have 0: "s \<noteq> ''False''" "s \<noteq> ''True''" "s \<noteq> ''None''"
    by (simp_all add: s_def)
  have 1: "\<not> INTEGER_match s"
    by (simp add: s_def INTEGER_match_def before_dollar_Cons is_digit_def)
  have 2: "\<not> FLOAT_match s"
    by (simp add: s_def FLOAT_match_def before_dollar_Cons is_digit_def)
  have 3: "OBJECT_REF_match s = None"
    by (simp add: s_def OBJECT_REF_match_def bracketed_ident_def before_dollar_Cons)
  have 4: "LIST_match s = None" "TUPLE_match s = None"
    by (simp_all add: s_def LIST_match_def TUPLE_match_def)
  have 5: "\<not> CLASS_NAME_match s"
    unfolding s_def by (rule not_CLASS_NAME_object)
  have "format_value import_module s = Inr (VStr s)"
    by (subst format_value.simps) (simp add: 0 1 2 3 4 5)
  then show ?thesis by (simp only: s_def)
qed

lemma get_object_VStr_Inr:
  assumes "get_object construct (VStr value) all_dicts st ignore_names depth = Inr (r, st')"
  obtains
    (ignored) "value \<in> ignore_names" "r = VNone"
      "st' = st\<lparr>existing_objects := (existing_objects st)(value \<mapsto> VNone)\<rparr>"
  | (cached) "value \<notin> ignore_names" "existing_objects st value = Some r" "st' = st"
  | (plain) "value \<notin> ignore_names" "existing_objects st value = None"
      "\<not> prefix ''object:'' value" "r = VStr value" "st' = st"
  | (built) this_dict class_value clazz args st1 where
      "value \<notin> ignore_names" "existing_objects st value = None" "prefix ''object:'' value"
      "map_of all_dicts (drop 7 value) = Some this_dict" "depth \<le> 20"
      "map_of this_dict ''class'' = Some class_value" "callable class_value = Some clazz"
      "process_args construct (filter (\<lambda>(k, arg). k \<noteq> ''class'') this_dict) all_dicts st
         ignore_names (depth + 1) = Inr (args, st1)"
      "check_args (drop 7 value) (signature clazz) (map fst args) = None"
      "construct clazz args = None"
      "r = VObj (length (heap st1))"
      "st' = \<lparr>existing_objects = (existing_objects st1)(value \<mapsto> VObj (length (heap st1))),
              heap = heap st1 @
                [\<lparr>made_from = drop 7 value, made_by = clazz, made_with = args\<rparr>]\<rparr>"
  using assms
  by (auto simp: Let_def split: if_splits option.splits sum.splits prod.splits)

text \<open>
  C10.  A value text that begins with \<open>object:\<close> matches none of the patterns and stays
  a raw string.  For a string that is neither in the ignore set nor a key of
  \<open>existing_objects\<close>, \<open>get_object\<close> decides by the prefix alone.  Without it the
  string is returned unchanged.  With it the string is a reference to the section named
  by the text after the prefix: a section that is not declared is an error; when the
  section is declared at a depth of at most 20, has a type, its arguments resolve, their
  names pass the check and the constructor returns, the result is the new instance, and
  the dictionary \<open>existing_objects\<close> gets it under the whole prefixed string; in a
  sound document whose constructors do not raise, every such reference that is not
  nested too deep is resolved in this way; and whenever the resolution returns at all,
  the result is an instance made from that section and stored under the prefixed string.
\<close>

theorem object_prefix_is_reference:
  "format_value import_module (''object:'' @ name) = Inr (VStr (''object:'' @ name)) \<and>
   (value \<notin> ignore_names \<and> existing_objects st value = None \<longrightarrow>
      (\<not> prefix ''object:'' value \<longrightarrow>
         get_object construct (VStr value) all_dicts st ignore_names depth = Inr (VStr value, st)) \<and>
      (prefix ''object:'' value \<longrightarrow>
         (map_of all_dicts (drop 7 value) = None \<longrightarrow>
            get_object construct (VStr value) all_dicts st ignore_names depth
              = Inl (ObjectNotDefined (drop 7 value))) \<and>
         (map_of all_dicts (drop 7 value) = Some this_dict \<and> depth \<le> 20 \<and>
          map_of this_dict ''class'' = Some class_value \<and> callable class_value = Some clazz \<and>
          process_args construct (filter (\<lambda>(k, arg). k \<noteq> ''class'') this_dict) all_dicts st
            ignore_names (depth + 1) = Inr (args, st1) \<and>
          check_args (drop 7 value) (signature clazz) (map fst args) = None \<and>
          construct clazz args = None \<longrightarrow>
            get_object construct (VStr value) all_dicts st ignore_names depth
              = Inr (VObj (length (heap st1)),
                  \<lparr>existing_objects = (existing_objects st1)(value \<mapsto> VObj (length (heap st1))),
                   heap = heap st1 @
                     [\<lparr>made_from = drop 7 value, made_by = clazz, made_with = args\<rparr>]\<rparr>)) \<and>
         (sound_document all_dicts \<and> sound_reference all_dicts value \<and>
          (\<forall>c a. construct c a = None) \<and> \<not> too_deep all_dicts depth (VStr value) \<longrightarrow>
            (\<exists>a st'. get_object construct (VStr value) all_dicts st ignore_names depth
                        = Inr (VObj a, st') \<and>
                      existing_objects st' value = Some (VObj a) \<and>
                      a < length (heap st') \<and> made_from (heap st' ! a) = drop 7 value)) \<and>
         (\<forall>r st'. get_object construct (VStr value) all_dicts st ignore_names depth = Inr (r, st')
            \<longrightarrow> (\<exists>a. r = VObj a \<and> existing_objects st' value = Some (VObj a) \<and>
                      a < length (heap st') \<and> made_from (heap st' ! a) = drop 7 value))))"
proof (intro conjI impI allI)
  show "format_value import_module (''object:'' @ name) = Inr (VStr (''object:'' @ name))"
    by (rule format_value_object_prefix)
next
  assume "value \<notin> ignore_names \<and> existing_objects st value = None" "\<not> prefix ''object:'' value"
  then show "get_object construct (VStr value) all_dicts st ignore_names depth = Inr (VStr value, st)"
    by simp
next
  assume "value \<notin> ignore_names \<and> existing_objects st value = None" "prefix ''object:'' value"
    "map_of all_dicts (drop 7 value) = None"
  then show "get_object construct (VStr value) all_dicts st ignore_names depth
              = Inl (ObjectNotDefined (drop 7 value))"
    by simp
next
  assume "value \<notin> ignore_names \<and> existing_objects st value = None" "prefix ''object:'' value"
    "map_of all_dicts (drop 7 value) = Some this_dict \<and> depth \<le> 20 \<and>
          map_of this_dict ''class'' = Some class_value \<and> callable class_value = Some clazz \<and>
          process_args construct (filter (\<lambda>(k, arg). k \<noteq> ''class'') this_dict) all_dicts st
            ignore_names (depth + 1) = Inr (args, st1) \<and>
          check_args (drop 7 value) (signature clazz) (map fst args) = None \<and>
          construct clazz args = None"
  then show "get_object construct (VStr value) all_dicts st ignore_names depth
              = Inr (VObj (length (heap st1)),
                  \<lparr>existing_objects = (existing_objects st1)(value \<mapsto> VObj (length (heap st1))),
                   heap = heap st1 @
                     [\<lparr>made_from = drop 7 value, made_by = clazz, made_with = args\<rparr>]\<rparr>)"
    by simp
next
  assume a: "value \<notin> ignore_names \<and> existing_objects st value = None" "prefix ''object:'' value"
    and s: "sound_document all_dicts \<and> sound_reference all_dicts value \<and>
          (\<forall>c a. construct c a = None) \<and> \<not> too_deep all_dicts depth (VStr value)"
  from s have "\<exists>r st'. get_object construct (VStr value) all_dicts st ignore_names depth = Inr (r, st')"
    by (intro sound_resolves) simp_all
  then obtain r st' where
    g: "get_object construct (VStr value) all_dicts st ignore_names depth = Inr (r, st')"
    by blast
  from g a have "\<exists>a. r = VObj a \<and> existing_objects st' value = Some (VObj a) \<and>
                      a < length (heap st') \<and> made_from (heap st' ! a) = drop 7 value"
    by (cases rule: get_object_VStr_Inr) auto
  with g show "\<exists>a st'. get_object construct (VStr value) all_dicts st ignore_names depth
                        = Inr (VObj a, st') \<and>
                      existing_objects st' value = Some (VObj a) \<and>
                      a < length (heap st') \<and> made_from (heap st' ! a) = drop 7 value"
    by blast
next
  fix r st'
  assume a: "value \<notin> ignore_names \<and> existing_objects st value = None" "prefix ''object:'' value"
    and g: "get_object construct (VStr value) all_dicts st ignore_names depth = Inr (r, st')"
  from g a show "\<exists>a. r = VObj a \<and> existing_objects st' value = Some (VObj a) \<and>
                      a < length (heap st') \<and> made_from (heap st' ! a) = drop 7 value"
    by (cases rule: get_object_VStr_Inr) auto
qed

text \<open>
  The value text \<open>object:net\<close>, written without angle brackets: the formatter leaves
  it as it is, the resolution builds the section \<open>net\<close> and stores the instance under
  \<open>object:net\<close>, and a whole load of the document gives the key the instance.  The
  string \<open>net\<close> is returned unchanged, and \<open>object:nothing\<close> names no section.
\<close>

theorem object_prefix_is_reference_witness:
  "format_value pkg_only (''object:'' @ ''net'') = Inr (VStr (''object:'' @ ''net'')) \<and>
   get_object always_constructs (VStr ''object:net'') net_doc empty_state {} 0
     = Inr (VObj 0,
         \<lparr>existing_objects = [''object:net'' \<mapsto> VObj 0],
          heap = [\<lparr>made_from = ''net'', made_by = class_Net, made_with = [(''size'', VInt 128)]\<rparr>]\<rparr>) \<and>
   get_object always_constructs (VStr ''net'') net_doc empty_state {} 0
     = Inr (VStr ''net'', empty_state) \<and>
   get_object always_constructs (VStr ''object:nothing'') net_doc empty_state {} 0
     = Inl (ObjectNotDefined ''nothing'') \<and>
   (\<exists>a st'. get_object always_constructs (VStr ''object:net'') net_doc empty_state {} 0
               = Inr (VObj a, st') \<and>
             existing_objects st' ''object:net'' = Some (VObj a) \<and>
             a < length (heap st') \<and> made_from (heap st' ! a) = ''net'') \<and>
   load_config_file pkg_only ''2016-01-01-00-00-00'' always_constructs
     [''[main]'', ''model=object:net'', ''[net]'', ''class=pkg.Net'', ''size=128''] {}
     = Inr [(''model'', VObj 0)]"
proof -
  note t = object_prefix_is_reference
    [where import_module = pkg_only and name = "''net''" and ignore_names = "{}"
       and st = empty_state and construct = always_constructs and all_dicts = net_doc
       and depth = 0 and class_value = "VClass class_Net" and clazz = class_Net
       and this_dict = "[(''class'', VClass class_Net), (''size'', VInt 128)]"
       and args = "[(''size'', VInt 128)]" and ?st1.0 = empty_state]
  note net = t [of "''object:net''"] and plain = t [of "''net''"]
    and nothing = t [of "''object:nothing''"]
  have h: "existing_objects empty_state = Map.empty" "heap empty_state = []"
    by (simp_all add: empty_state_def)
  have d: "map_of net_doc (drop 7 ''object:net'')
      = Some [(''class'', VClass class_Net), (''size'', VInt 128)]"
    "map_of net_doc (drop 7 ''object:nothing'') = None"
    by (simp_all add: net_doc_def)
  have c: "map_of [(''class'', VClass class_Net), (''size'', VInt 128)] ''class''
      = Some (VClass class_Net)" "callable (VClass class_Net) = Some class_Net"
    by (simp_all add: build_defs)
  have p: "process_args always_constructs
        (filter (\<lambda>(k, arg). k \<noteq> ''class'') [(''class'', VClass class_Net), (''size'', VInt 128)])
        net_doc empty_state {} (0 + 1) = Inr ([(''size'', VInt 128)], empty_state)"
    by simp
  have k: "check_args (drop 7 ''object:net'') (signature class_Net)
        (map fst [(''size'', VInt 128)]) = None"
    "always_constructs class_Net [(''size'', VInt 128)] = None"
    by (simp_all add: build_defs)
  have "sound_document net_doc"
    by (auto simp: sound_document_def sound_reference_def net_doc_def build_defs)
  moreover have "sound_reference net_doc ''object:net''"
    by (simp add: sound_reference_def net_doc_def build_defs)
  moreover have "\<forall>c a. always_constructs c a = None"
    by (simp add: always_constructs_def)
  moreover have "\<not> too_deep net_doc 0 (VStr ''object:net'')"
    by (simp add: net_doc_def)
  ultimately have s: "sound_document net_doc \<and> sound_reference net_doc ''object:net'' \<and>
    (\<forall>c a. always_constructs c a = None) \<and> \<not> too_deep net_doc 0 (VStr ''object:net'')"
    by blast
  have 1: "format_value pkg_only (''object:'' @ ''net'') = Inr (VStr (''object:'' @ ''net''))"
    using net by blast
  have 2: "get_object always_constructs (VStr ''object:net'') net_doc empty_state {} 0
     = Inr (VObj 0,
         \<lparr>existing_objects = [''object:net'' \<mapsto> VObj 0],
          heap = [\<lparr>made_from = ''net'', made_by = class_Net, made_with = [(''size'', VInt 128)]\<rparr>]\<rparr>)"
    using net d c p k by (simp add: h)
  have 3: "get_object always_constructs (VStr ''net'') net_doc empty_state {} 0
     = Inr (VStr ''net'', empty_state)"
    using plain by (simp add: h)
  have 4: "get_object always_constructs (VStr ''object:nothing'') net_doc empty_state {} 0
     = Inl (ObjectNotDefined ''nothing'')"
    using nothing d by (simp add: h)
  have 5: "\<exists>a st'. get_object always_constructs (VStr ''object:net'') net_doc empty_state {} 0
               = Inr (VObj a, st') \<and>
             existing_objects st' ''object:net'' = Some (VObj a) \<and>
             a < length (heap st') \<and> made_from (heap st' ! a) = ''net''"
    using net s by (simp add: h)
  have 6: "load_config_file pkg_only ''2016-01-01-00-00-00'' always_constructs
     [''[main]'', ''model=object:net'', ''[net]'', ''class=pkg.Net'', ''size=128''] {}
     = Inr [(''model'', VObj 0)]"
    by (simp add: load_config_file_def load_config_dicts_def parse_defs regex_defs pkg_only_def
          int_of_string_def digit_value_def build_defs)
  from 1 2 3 4 5 6 show ?thesis by blast
qed

subsection \<open>The ignore set\<close>

text \<open>
  C6 (amended).  The ignore set is tested against the whole value: a string that is
  itself a member of the set (for a reference, the marker \<open>object:name\<close>) is not
  resolved any further, \<open>None\<close> is stored under it in \<open>existing_objects\<close> and \<open>None\<close>
  is returned, and nothing is constructed.  A reference whose marker is not in the set
  (whether or not its bare name is) never resolves to \<open>None\<close>.
\<close>

theorem get_object_ignored_value:
  "(value \<in> ignore_names \<longrightarrow>
      get_object construct (VStr value) all_dicts st ignore_names depth
        = Inr (VNone, st\<lparr>existing_objects := (existing_objects st)(value \<mapsto> VNone)\<rparr>)) \<and>
   (value \<notin> ignore_names \<and> existing_objects st value = None \<and> prefix ''object:'' value \<longrightarrow>
      (\<forall>r st'. get_object construct (VStr value) all_dicts st ignore_names depth = Inr (r, st')
         \<longrightarrow> (\<exists>a. r = VObj a)))"
proof (intro conjI impI allI)
  assume "value \<in> ignore_names"
  then show "get_object construct (VStr value) all_dicts st ignore_names depth
        = Inr (VNone, st\<lparr>existing_objects := (existing_objects st)(value \<mapsto> VNone)\<rparr>)"
    by simp
next
  fix r st'
  assume a: "value \<notin> ignore_names \<and> existing_objects st value = None \<and> prefix ''object:'' value"
    and g: "get_object construct (VStr value) all_dicts st ignore_names depth = Inr (r, st')"
  from g a show "\<exists>a. r = VObj a"
    by (cases rule: get_object_VStr_Inr) auto
qed

text \<open>
  With the marker \<open>object:net\<close> in the ignore set the reference to \<open>net\<close> resolves
  to \<open>None\<close> and the heap stays empty.
\<close>

theorem get_object_ignored_value_witness:
  "get_object always_constructs (VStr ''object:net'')
     [(''net'', [(''class'', VClass class_Net), (''size'', VInt 128)])] empty_state
     {''object:net''} 0
   = Inr (VNone,
       empty_state\<lparr>existing_objects := (existing_objects empty_state)(''object:net'' \<mapsto> VNone)\<rparr>)"
proof -
  note t = get_object_ignored_value
    [of "''object:net''" "{''object:net''}" always_constructs
       "[(''net'', [(''class'', VClass class_Net), (''size'', VInt 128)])]" empty_state 0]
  have "''object:net'' \<in> {''object:net''}" by simp
  with t show ?thesis by blast
qed

text \<open>
  With the bare name \<open>net\<close> in the ignore set, the reference \<open><net>\<close> held by the key
  \<open>model\<close> of \<open>main\<close> is resolved all the same: the section is constructed and the key
  gets the instance, not \<open>None\<close>.
\<close>

theorem load_ignored_name_counterexample:
  "load_config_dicts always_constructs
     [(''main'', [(''model'', VStr ''object:net'')]),
      (''net'', [(''class'', VClass class_Net), (''size'', VInt 128)])] {''net''}
   = Inr ([(''model'', VObj 0)],
       \<lparr>existing_objects = [''object:net'' \<mapsto> VObj 0],
        heap = [\<lparr>made_from = ''net'', made_by = class_Net,
                 made_with = [(''size'', VInt 128)]\<rparr>]\<rparr>)"
  by (simp add: load_config_dicts_def build_defs)

subsection \<open>The depth guard\<close>

lemma closed_cycle_dict:
  assumes "closed_cycle all_dicts ignore_names st M" "m \<in> M"
  obtains this_dict class_value clazz where
    "map_of all_dicts (drop 7 m) = Some this_dict" "map_of this_dict ''class'' = Some class_value"
    "callable class_value = Some clazz"
proof -
  from assms have "case map_of all_dicts (drop 7 m) of
           None \<Rightarrow> False
         | Some this_dict \<Rightarrow>
            (case map_of this_dict ''class'' of
               None \<Rightarrow> False
             | Some class_value \<Rightarrow> callable class_value \<noteq> None)"
    unfolding closed_cycle_def by blast
  then show thesis
    using that by (auto split: option.splits)
qed

lemma closed_cycle_key:
  assumes "closed_cycle all_dicts ignore_names st M" "m \<in> M"
  shows "m \<notin> ignore_names" "existing_objects st m = None" "prefix ''object:'' m"
  using assms unfolding closed_cycle_def by blast+

lemma closed_cycle_inert:
  assumes "closed_cycle all_dicts ignore_names st M" "m \<in> M"
    "(k, arg) \<in> set (arguments all_dicts (drop 7 m))" "s \<in> strings_of arg"
  shows "s \<notin> ignore_names \<and> existing_objects st s = None \<and> (prefix ''object:'' s \<longrightarrow> s \<in> M)"
  using assms unfolding closed_cycle_def by blast

lemma closed_cycle_some:
  assumes "closed_cycle all_dicts ignore_names st M" "m \<in> M"
  shows "\<exists>(k, arg)\<in>set (arguments all_dicts (drop 7 m)). strings_of arg \<inter> M \<noteq> {}"
  using assms unfolding closed_cycle_def by blast

lemma closed_cycle_run:
  shows "closed_cycle all_dicts ignore_names st M \<Longrightarrow>
      (\<forall>s\<in>strings_of v. s \<notin> ignore_names \<and> existing_objects st s = None \<and>
           (prefix ''object:'' s \<longrightarrow> s \<in> M)) \<Longrightarrow>
      get_object construct v all_dicts st ignore_names depth = Inl DepthExceeded \<or>
      (strings_of v \<inter> M = {} \<and>
       (\<exists>r. get_object construct v all_dicts st ignore_names depth = Inr (r, st)))"
    and "closed_cycle all_dicts ignore_names st M \<Longrightarrow>
      (\<forall>v\<in>set vs. \<forall>s\<in>strings_of v. s \<notin> ignore_names \<and> existing_objects st s = None \<and>
           (prefix ''object:'' s \<longrightarrow> s \<in> M)) \<Longrightarrow>
      get_objects construct vs all_dicts st ignore_names depth = Inl DepthExceeded \<or>
      ((\<forall>v\<in>set vs. strings_of v \<inter> M = {}) \<and>
       (\<exists>rs. get_objects construct vs all_dicts st ignore_names depth = Inr (rs, st)))"
    and "closed_cycle all_dicts ignore_names st M \<Longrightarrow>
      (\<forall>(k, arg)\<in>set items. \<forall>s\<in>strings_of arg. s \<notin> ignore_names \<and> existing_objects st s = None \<and>
           (prefix ''object:'' s \<longrightarrow> s \<in> M)) \<Longrightarrow>
      process_args construct items all_dicts st ignore_names depth = Inl DepthExceeded \<or>
      ((\<forall>(k, arg)\<in>set items. strings_of arg \<inter> M = {}) \<and>
       (\<exists>rs. process_args construct items all_dicts st ignore_names depth = Inr (rs, st)))"
proof (induction construct v all_dicts st ignore_names depth
    and construct vs all_dicts st ignore_names depth
    and construct items all_dicts st ignore_names depth
    rule: get_object_get_objects_process_args.induct)
  case (1 construct vs all_dicts st ignore_names depth)
  from "1.prems"(2) have "\<forall>v\<in>set vs. \<forall>s\<in>strings_of v. s \<notin> ignore_names \<and>
      existing_objects st s = None \<and> (prefix ''object:'' s \<longrightarrow> s \<in> M)" by auto
  from "1.IH" [OF "1.prems"(1) this] show ?case by auto
next
  case (2 construct vs all_dicts st ignore_names depth)
  from "2.prems"(2) have "\<forall>v\<in>set vs. \<forall>s\<in>strings_of v. s \<notin> ignore_names \<and>
      existing_objects st s = None \<and> (prefix ''object:'' s \<longrightarrow> s \<in> M)" by auto
  from "2.IH" [OF "2.prems"(1) this] show ?case by auto
next
  case (3 construct s all_dicts st ignore_names depth)
  from "3.prems"(2) have s: "s \<notin> ignore_names" "existing_objects st s = None"
    and m: "prefix ''object:'' s \<Longrightarrow> s \<in> M"
    by auto
  show ?case
  proof (cases "prefix ''object:'' s")
    case False
    with s have "get_object construct (VStr s) all_dicts st ignore_names depth = Inr (VStr s, st)"
      by simp
    moreover from False closed_cycle_key(3) [OF "3.prems"(1)] have "s \<notin> M" by blast
    ultimately show ?thesis by simp
  next
    case True
    from m [OF True] have sM: "s \<in> M" .
    from closed_cycle_dict [OF "3.prems"(1) sM] obtain this_dict class_value clazz where
      d: "map_of all_dicts (drop 7 s) = Some this_dict"
        "map_of this_dict ''class'' = Some class_value"
        "callable class_value = Some clazz"
      by blast
    then have args: "arguments all_dicts (drop 7 s) = filter (\<lambda>(k, arg). k \<noteq> ''class'') this_dict"
      by (simp add: arguments_def)
    show ?thesis
    proof (cases "20 < depth")
      case True
      with s d \<open>prefix ''object:'' s\<close> show ?thesis by simp
    next
      case False
      have inert: "\<forall>(k, arg)\<in>set (filter (\<lambda>(k, arg). k \<noteq> ''class'') this_dict).
          \<forall>s\<in>strings_of arg. s \<notin> ignore_names \<and> existing_objects st s = None \<and>
           (prefix ''object:'' s \<longrightarrow> s \<in> M)"
        using closed_cycle_inert [OF "3.prems"(1) sM] unfolding args by blast
      have some: "\<exists>(k, arg)\<in>set (filter (\<lambda>(k, arg). k \<noteq> ''class'') this_dict).
          strings_of arg \<inter> M \<noteq> {}"
        using closed_cycle_some [OF "3.prems"(1) sM] unfolding args .
      have "process_args construct (filter (\<lambda>(k, arg). k \<noteq> ''class'') this_dict) all_dicts st
              ignore_names (depth + 1) = Inl DepthExceeded \<or>
            ((\<forall>(k, arg)\<in>set (filter (\<lambda>(k, arg). k \<noteq> ''class'') this_dict).
                strings_of arg \<inter> M = {}) \<and>
             (\<exists>rs. process_args construct (filter (\<lambda>(k, arg). k \<noteq> ''class'') this_dict) all_dicts st
              ignore_names (depth + 1) = Inr (rs, st)))"
        using s True d False
        by (intro "3.IH" [of "drop 7 s" this_dict class_value clazz] "3.prems"(1) inert) simp_all
      with some have "process_args construct (filter (\<lambda>(k, arg). k \<noteq> ''class'') this_dict)
          all_dicts st ignore_names (depth + 1) = Inl DepthExceeded"
        by blast
      with s True d False show ?thesis by simp
    qed
  qed
next
  case (11 construct val rest all_dicts st ignore_names depth)
  from "11.prems"(2) have v: "\<forall>s\<in>strings_of val. s \<notin> ignore_names \<and>
      existing_objects st s = None \<and> (prefix ''object:'' s \<longrightarrow> s \<in> M)"
    and r: "\<forall>v\<in>set rest. \<forall>s\<in>strings_of v. s \<notin> ignore_names \<and>
      existing_objects st s = None \<and> (prefix ''object:'' s \<longrightarrow> s \<in> M)" by auto
  from "11.IH"(1) [OF "11.prems"(1) v]
  consider "get_object construct val all_dicts st ignore_names depth = Inl DepthExceeded"
    | r where "strings_of val \<inter> M = {}"
       "get_object construct val all_dicts st ignore_names depth = Inr (r, st)"
    by auto
  then show ?case
  proof cases
    case 1
    then show ?thesis by simp
  next
    case 2
    from "11.IH"(2) [OF 2(2) refl "11.prems"(1) r] 2 show ?thesis
      by auto
  qed
next
  case (13 construct k arg rest all_dicts st ignore_names depth)
  from "13.prems"(2) have v: "\<forall>s\<in>strings_of arg. s \<notin> ignore_names \<and>
      existing_objects st s = None \<and> (prefix ''object:'' s \<longrightarrow> s \<in> M)"
    and r: "\<forall>(k, arg)\<in>set rest. \<forall>s\<in>strings_of arg. s \<notin> ignore_names \<and>
      existing_objects st s = None \<and> (prefix ''object:'' s \<longrightarrow> s \<in> M)" by auto
  from "13.IH"(1) [OF "13.prems"(1) v]
  consider "get_object construct arg all_dicts st ignore_names depth = Inl DepthExceeded"
    | r where "strings_of arg \<inter> M = {}"
       "get_object construct arg all_dicts st ignore_names depth = Inr (r, st)"
    by auto
  then show ?case
  proof cases
    case 1
    then show ?thesis by simp
  next
    case 2
    from "13.IH"(2) [OF 2(2) refl "13.prems"(1) r] 2 show ?thesis
      by auto
  qed
qed simp_all

lemma chain_name_inj: "(chain_name i = chain_name j) = (i = j)"
proof
  assume "chain_name i = chain_name j"
  then have "length (chain_name i) = length (chain_name j)" by simp
  then show "i = j" by (simp add: chain_name_def)
qed simp

lemma map_of_keyed:
  "(\<And>i j. (f i = f j) = (i = j)) \<Longrightarrow> i \<in> set xs \<Longrightarrow>
     map_of (map (\<lambda>i. (f i, g i)) xs) (f i) = Some (g i)"
  by (induction xs) auto

lemma map_of_chain: "i \<le> k \<Longrightarrow> map_of (chain k) (chain_name i) = Some (chain_dict k i)"
  unfolding chain_def by (rule map_of_keyed) (auto simp: chain_name_inj)

lemma chain_last:
  assumes "existing_objects st (''object:'' @ chain_name k) = None"
  shows "get_object always_constructs (VStr (''object:'' @ chain_name k)) (chain k) st {} d =
     (if 20 < d then Inl DepthExceeded
      else Inr (VObj (length (heap st)),
        \<lparr>existing_objects = (existing_objects st)(''object:'' @ chain_name k \<mapsto> VObj (length (heap st))),
         heap = heap st @ [\<lparr>made_from = chain_name k, made_by = class_Link, made_with = []\<rparr>]\<rparr>))"
  using assms
  by (simp add: map_of_chain chain_dict_def build_defs class_Link_def)

lemma chain_step:
  assumes "existing_objects st (''object:'' @ chain_name i) = None" "i < k"
  shows "get_object always_constructs (VStr (''object:'' @ chain_name i)) (chain k) st {} d =
     (if 20 < d then Inl DepthExceeded
      else case get_object always_constructs (VStr (''object:'' @ chain_name (Suc i))) (chain k) st {}
               (d + 1) of
             Inl e \<Rightarrow> Inl e
           | Inr (r, st') \<Rightarrow>
               Inr (VObj (length (heap st')),
                 \<lparr>existing_objects =
                    (existing_objects st')(''object:'' @ chain_name i \<mapsto> VObj (length (heap st'))),
                  heap = heap st' @ [\<lparr>made_from = chain_name i, made_by = class_Link,
                                      made_with = [(''next'', r)]\<rparr>]\<rparr>))"
  using assms
  by (simp add: map_of_chain chain_dict_def build_defs class_Link_def split: sum.splits)

lemma chain_run:
  "i + j = k \<Longrightarrow> (\<forall>l. existing_objects st (''object:'' @ chain_name l) = None) \<Longrightarrow>
   (d + j \<le> 20 \<longrightarrow>
      (\<exists>r st'. get_object always_constructs (VStr (''object:'' @ chain_name i)) (chain k) st {} d
         = Inr (r, st'))) \<and>
   (20 < d + j \<longrightarrow>
      get_object always_constructs (VStr (''object:'' @ chain_name i)) (chain k) st {} d
         = Inl DepthExceeded)"
proof (induction j arbitrary: i d)
  case 0
  then have "i = k" by simp
  with 0 chain_last [of st k d] show ?case by simp
next
  case (Suc j)
  then have ik: "i < k" and s: "Suc i + j = k" by simp_all
  from Suc.prems have c: "existing_objects st (''object:'' @ chain_name i) = None" by blast
  note step = chain_step [OF c ik, of d]
  note ih = Suc.IH [OF s Suc.prems(2), of "d + 1"]
  show ?case
  proof (intro conjI impI)
    assume "d + Suc j \<le> 20"
    with ih obtain r st' where
      "get_object always_constructs (VStr (''object:'' @ chain_name (Suc i))) (chain k) st {} (d + 1)
         = Inr (r, st')" by auto
    with step \<open>d + Suc j \<le> 20\<close> show "\<exists>r st'.
       get_object always_constructs (VStr (''object:'' @ chain_name i)) (chain k) st {} d
         = Inr (r, st')" by simp
  next
    assume "20 < d + Suc j"
    with ih have "get_object always_constructs (VStr (''object:'' @ chain_name (Suc i))) (chain k)
        st {} (d + 1) = Inl DepthExceeded" by simp
    with step show "get_object always_constructs (VStr (''object:'' @ chain_name i)) (chain k) st {} d
         = Inl DepthExceeded" by simp
  qed
qed

lemma chain_from_empty:
  "(k \<le> 20 \<longrightarrow>
      (\<exists>r st'. get_object always_constructs (VStr (''object:'' @ chain_name 0)) (chain k)
                 empty_state {} 0 = Inr (r, st'))) \<and>
   (20 < k \<longrightarrow>
      get_object always_constructs (VStr (''object:'' @ chain_name 0)) (chain k) empty_state {} 0
         = Inl DepthExceeded)"
  using chain_run [of 0 k k empty_state 0] by (simp add: empty_state_def)

subsection \<open>States of one load\<close>




text \<open>No marker of a blocked set is ever built.\<close>

lemma blocked_key:
  assumes "blocked all_dicts ignore_names B" "m \<in> B"
  shows "m \<notin> ignore_names" "prefix ''object:'' m"
    "\<exists>(k, arg)\<in>set (arguments all_dicts (drop 7 m)). strings_of arg \<inter> B \<noteq> {}"
  using assms unfolding blocked_def by blast+

lemma disjoint_dom: "(B \<inter> dom m = {}) = (\<forall>x\<in>B. m x = None)"
  by (auto simp: dom_def)

lemma blocked_run:
  shows "get_object construct v all_dicts st ignore_names depth = Inr (r, st') \<Longrightarrow>
      blocked all_dicts ignore_names B \<Longrightarrow> B \<inter> dom (existing_objects st) = {} \<Longrightarrow>
      B \<inter> dom (existing_objects st') = {} \<and> strings_of v \<inter> B = {}"
    and "get_objects construct vs all_dicts st ignore_names depth = Inr (rs, st') \<Longrightarrow>
      blocked all_dicts ignore_names B \<Longrightarrow> B \<inter> dom (existing_objects st) = {} \<Longrightarrow>
      B \<inter> dom (existing_objects st') = {} \<and> (\<forall>v\<in>set vs. strings_of v \<inter> B = {})"
    and "process_args construct items all_dicts st ignore_names depth = Inr (args, st') \<Longrightarrow>
      blocked all_dicts ignore_names B \<Longrightarrow> B \<inter> dom (existing_objects st) = {} \<Longrightarrow>
      B \<inter> dom (existing_objects st') = {} \<and> (\<forall>(k, arg)\<in>set items. strings_of arg \<inter> B = {})"
proof (induction construct v all_dicts st ignore_names depth
    and construct vs all_dicts st ignore_names depth
    and construct items all_dicts st ignore_names depth
    arbitrary: r st' and rs st' and args st'
    rule: get_object_get_objects_process_args.induct)
  case (1 construct vs all_dicts st ignore_names depth)
  from "1.prems"(1) obtain rs where
    "get_objects construct vs all_dicts st ignore_names (depth + 1) = Inr (rs, st')"
    by (auto split: sum.splits)
  from "1.IH" [OF this "1.prems"(2,3)] show ?case by auto
next
  case (2 construct vs all_dicts st ignore_names depth)
  from "2.prems"(1) obtain rs where
    "get_objects construct vs all_dicts st ignore_names (depth + 1) = Inr (rs, st')"
    by (auto split: sum.splits)
  from "2.IH" [OF this "2.prems"(2,3)] show ?case by auto
next
  case (3 construct s all_dicts st ignore_names depth)
  note bl = "3.prems"(2) and dj = "3.prems"(3)
  from "3.prems"(1) show ?case
  proof (cases rule: get_object_VStr_Inr)
    case ignored
    with blocked_key(1) [OF bl] have "s \<notin> B" by blast
    with ignored dj show ?thesis by (auto simp: disjoint_dom)
  next
    case cached
    with dj have "s \<notin> B" by auto
    with cached dj show ?thesis by auto
  next
    case plain
    with blocked_key(2) [OF bl] have "s \<notin> B" by blast
    with plain dj show ?thesis by auto
  next
    case (built this_dict class_value clazz args st1)
    have ih: "B \<inter> dom (existing_objects st1) = {} \<and>
        (\<forall>(k, arg)\<in>set (filter (\<lambda>(k, arg). k \<noteq> ''class'') this_dict). strings_of arg \<inter> B = {})"
      using built by (intro "3.IH" [of "drop 7 s" this_dict class_value clazz args st1] bl dj) auto
    have args: "arguments all_dicts (drop 7 s) = filter (\<lambda>(k, arg). k \<noteq> ''class'') this_dict"
      using built by (simp add: arguments_def)
    have "s \<notin> B"
    proof
      assume "s \<in> B"
      from blocked_key(3) [OF bl this] ih show False unfolding args by blast
    qed
    with ih built show ?thesis by (auto simp: disjoint_dom)
  qed
next
  case (11 construct val rest all_dicts st ignore_names depth)
  from "11.prems"(1) obtain r st1 rs1 where
    a: "get_object construct val all_dicts st ignore_names depth = Inr (r, st1)"
    and b: "get_objects construct rest all_dicts st1 ignore_names depth = Inr (rs1, st')"
    by (auto split: sum.splits)
  from "11.IH"(1) [OF a "11.prems"(2,3)]
  have 1: "B \<inter> dom (existing_objects st1) = {}" "strings_of val \<inter> B = {}" by auto
  from "11.IH"(2) [OF a refl b "11.prems"(2) 1(1)] 1 show ?case by auto
next
  case (13 construct k arg rest all_dicts st ignore_names depth)
  from "13.prems"(1) obtain r st1 rs1 where
    a: "get_object construct arg all_dicts st ignore_names depth = Inr (r, st1)"
    and b: "process_args construct rest all_dicts st1 ignore_names depth = Inr (rs1, st')"
    by (auto split: sum.splits)
  from "13.IH"(1) [OF a "13.prems"(2,3)]
  have 1: "B \<inter> dom (existing_objects st1) = {}" "strings_of arg \<inter> B = {}" by auto
  from "13.IH"(2) [OF a refl b "13.prems"(2) 1(1)] 1 show ?case by auto
qed auto

lemma blocked_fails:
  assumes "blocked all_dicts ignore_names B" "B \<inter> dom (existing_objects st) = {}" "m \<in> B"
  shows "\<exists>e. get_object construct (VStr m) all_dicts st ignore_names depth = Inl e"
proof (cases "get_object construct (VStr m) all_dicts st ignore_names depth")
  case (Inl e)
  then show ?thesis by blast
next
  case (Inr p)
  obtain r st' where "p = (r, st')" by (cases p)
  with Inr have "get_object construct (VStr m) all_dicts st ignore_names depth = Inr (r, st')"
    by simp
  from blocked_run(1) [OF this assms(1,2)] have "strings_of (VStr m) \<inter> B = {}" by blast
  with assms(3) show ?thesis by simp
qed

lemma too_deep_chain:
  "i + j = k \<Longrightarrow>
     too_deep (chain k) d (VStr (''object:'' @ chain_name i)) = (20 < d + j)"
proof (induction j arbitrary: i d)
  case 0
  then have "i = k" by simp
  then show ?case by (simp add: map_of_chain chain_dict_def)
next
  case (Suc j)
  then have ik: "i < k" "i \<le> k" and s: "Suc i + j = k" by simp_all
  from Suc.IH [OF s, of "d + 1"] ik show ?case
    by (simp add: map_of_chain chain_dict_def)
qed

text \<open>
  C1 (amended).  \<open>get_object\<close> is a total function: its recursion is bounded by the
  depth counter and the size of the value, whatever the document.  In a reference cycle
  (a set of markers, none ignored or built yet, where the section of each has an
  argument that mentions a marker of the set) the resolution of a member never returns
  a value: it ends with an error.  In a sound document that error is the depth-exceeded
  error, unless the constructor of an object outside the cycle raises first; this holds
  also when sections of the cycle refer to sections outside it.  It is the
  depth-exceeded error too when the cycle is pure (every section of the cycle has a
  type, and its arguments hold markers of the cycle and plain values only), at whatever
  depth the resolution starts.  Another defect met first gives its own error instead.
  The guard rejects nothing shallower than it says: whenever a resolution fails with the
  depth-exceeded error, a reference to a declared section stands at a depth above 20,
  where every sequence and every reference count one level and all arguments of a
  section stand at the same level; and in a sound document whose constructors do not
  raise, every value with no reference above depth 20 resolves.  The first section of a
  chain whose last section is nested \<open>k\<close> references deep is too deep exactly when
  \<open>k\<close> is above 20: it resolves when \<open>k\<close> is at most 20, and fails with the
  depth-exceeded error when \<open>k\<close> is 21 or more.
\<close>

theorem reference_cycle_fails:
  "(blocked all_dicts ignore_names B \<and> B \<inter> dom (existing_objects st) = {} \<and> m \<in> B \<longrightarrow>
      (\<exists>e. get_object construct (VStr m) all_dicts st ignore_names depth = Inl e) \<and>
      (sound_document all_dicts \<and> sound_reference all_dicts m \<longrightarrow>
         get_object construct (VStr m) all_dicts st ignore_names depth = Inl DepthExceeded \<or>
         (\<exists>name clazz args x. construct clazz args = Some x \<and>
            get_object construct (VStr m) all_dicts st ignore_names depth
              = Inl (ConfigBuildException name x)))) \<and>
   (pure_cycle all_dicts ignore_names st S \<and> n \<in> S \<longrightarrow>
      get_object construct (VStr (''object:'' @ n)) all_dicts st ignore_names depth
        = Inl DepthExceeded) \<and>
   (get_object construct v all_dicts st ignore_names depth = Inl DepthExceeded \<longrightarrow>
      too_deep all_dicts depth v) \<and>
   (sound_document all_dicts \<and> (\<forall>s\<in>strings_of v. sound_reference all_dicts s) \<and>
    (\<forall>clazz args. construct clazz args = None) \<and> \<not> too_deep all_dicts depth v \<longrightarrow>
      (\<exists>r st'. get_object construct v all_dicts st ignore_names depth = Inr (r, st'))) \<and>
   too_deep (chain k) 0 (VStr (''object:'' @ chain_name 0)) = (20 < k) \<and>
   (k \<le> 20 \<longrightarrow>
      (\<exists>r st'. get_object always_constructs (VStr (''object:'' @ chain_name 0)) (chain k)
                 empty_state {} 0 = Inr (r, st'))) \<and>
   (20 < k \<longrightarrow>
      get_object always_constructs (VStr (''object:'' @ chain_name 0)) (chain k) empty_state {} 0
        = Inl DepthExceeded)"
proof (intro conjI impI)
  assume b: "blocked all_dicts ignore_names B \<and> B \<inter> dom (existing_objects st) = {} \<and> m \<in> B"
  then show "\<exists>e. get_object construct (VStr m) all_dicts st ignore_names depth = Inl e"
    by (intro blocked_fails [of all_dicts ignore_names B]) simp_all
next
  assume b: "blocked all_dicts ignore_names B \<and> B \<inter> dom (existing_objects st) = {} \<and> m \<in> B"
    and s: "sound_document all_dicts \<and> sound_reference all_dicts m"
  from b obtain e where e: "get_object construct (VStr m) all_dicts st ignore_names depth = Inl e"
    using blocked_fails [of all_dicts ignore_names B st m construct depth] by blast
  from s have "\<forall>s\<in>strings_of (VStr m). sound_reference all_dicts s" by simp
  from sound_failure(1) [OF e _ this] s
  have "e = DepthExceeded \<or> (\<exists>n c a x. construct c a = Some x \<and> e = ConfigBuildException n x)"
    by blast
  with e show "get_object construct (VStr m) all_dicts st ignore_names depth = Inl DepthExceeded \<or>
         (\<exists>name clazz args x. construct clazz args = Some x \<and>
            get_object construct (VStr m) all_dicts st ignore_names depth
              = Inl (ConfigBuildException name x))"
    by auto
next
  assume a: "pure_cycle all_dicts ignore_names st S \<and> n \<in> S"
  define M where "M = (\<lambda>n. ''object:'' @ n) ` S"
  define m where "m = ''object:'' @ n"
  from a have cc: "closed_cycle all_dicts ignore_names st M" and mM: "m \<in> M"
    by (simp_all add: pure_cycle_def M_def m_def)
  from closed_cycle_key [OF cc mM] mM
  have "\<forall>s\<in>strings_of (VStr m). s \<notin> ignore_names \<and> existing_objects st s = None \<and>
           (prefix ''object:'' s \<longrightarrow> s \<in> M)"
    by simp
  from closed_cycle_run(1) [OF cc this, of construct depth] mM
  have "get_object construct (VStr m) all_dicts st ignore_names depth = Inl DepthExceeded"
    by auto
  then show "get_object construct (VStr (''object:'' @ n)) all_dicts st ignore_names depth
        = Inl DepthExceeded"
    by (simp only: m_def)
next
  assume "get_object construct v all_dicts st ignore_names depth = Inl DepthExceeded"
  then show "too_deep all_dicts depth v"
    by (rule depth_exceeded_too_deep(1))
next
  assume "sound_document all_dicts \<and> (\<forall>s\<in>strings_of v. sound_reference all_dicts s) \<and>
    (\<forall>clazz args. construct clazz args = None) \<and> \<not> too_deep all_dicts depth v"
  then show "\<exists>r st'. get_object construct v all_dicts st ignore_names depth = Inr (r, st')"
    by (intro sound_resolves) simp_all
next
  show "too_deep (chain k) 0 (VStr (''object:'' @ chain_name 0)) = (20 < k)"
    using too_deep_chain [of 0 k k 0] by simp
next
  assume "k \<le> 20"
  with chain_from_empty [of k]
  show "\<exists>r st'. get_object always_constructs (VStr (''object:'' @ chain_name 0)) (chain k)
                 empty_state {} 0 = Inr (r, st')"
    by blast
next
  assume "20 < k"
  with chain_from_empty [of k]
  show "get_object always_constructs (VStr (''object:'' @ chain_name 0)) (chain k) empty_state {} 0
        = Inl DepthExceeded"
    by blast
qed

text \<open>
  The cycle of \<open>A\<close> and \<open>B\<close> with the reference to \<open>C\<close> that leads out of it,
  the sections \<open>A\<close> and \<open>B\<close> that refer to each other and to nothing else, the
  section \<open>C\<close> alone, a chain nested 20 deep and a chain nested 21 deep.
\<close>

theorem reference_cycle_fails_witness:
  "(\<exists>e. get_object always_constructs (VStr ''object:A'') cycle_side empty_state {} 0 = Inl e) \<and>
   get_object always_constructs (VStr ''object:A'') cycle_side empty_state {} 0
     = Inl DepthExceeded \<and>
   get_object always_constructs (VStr (''object:'' @ ''A'')) cycle_AB empty_state {} 0
     = Inl DepthExceeded \<and>
   too_deep cycle_side 0 (VStr ''object:A'') \<and>
   (\<exists>r st'. get_object always_constructs (VStr ''object:C'') cycle_side empty_state {} 0
              = Inr (r, st')) \<and>
   \<not> too_deep (chain 20) 0 (VStr (''object:'' @ chain_name 0)) \<and>
   (\<exists>r st'. get_object always_constructs (VStr (''object:'' @ chain_name 0)) (chain 20)
              empty_state {} 0 = Inr (r, st')) \<and>
   too_deep (chain 21) 0 (VStr (''object:'' @ chain_name 0)) \<and>
   get_object always_constructs (VStr (''object:'' @ chain_name 0)) (chain 21) empty_state {} 0
     = Inl DepthExceeded"
proof -
  have pc: "pure_cycle cycle_AB {} empty_state {''A'', ''B''}"
    apply (auto simp: pure_cycle_def closed_cycle_def cycle_AB_def arguments_def callable_def
        class_Link_def empty_state_def)
     apply (rule exI [of _ "''next''"], simp)
    apply (rule exI [of _ "''next''"], simp)
    done
  have bl: "blocked cycle_side {} {''object:A'', ''object:B''}"
    apply (auto simp: blocked_def cycle_side_def arguments_def)
     apply (rule exI [of _ "''b''"], simp)
    apply (rule exI [of _ "''next''"], simp)
    done
  have dj: "{''object:A'', ''object:B''} \<inter> dom (existing_objects empty_state) = {}"
    by (simp add: empty_state_def)
  have sd: "sound_document cycle_side"
    by (auto simp: sound_document_def sound_reference_def cycle_side_def build_defs class_Link_def)
  have sa: "sound_reference cycle_side ''object:A''"
    by (simp add: sound_reference_def cycle_side_def build_defs)
  have sc: "\<forall>s\<in>strings_of (VStr ''object:C''). sound_reference cycle_side s"
    by (simp add: sound_reference_def cycle_side_def build_defs)
  have ac: "\<forall>clazz args. always_constructs clazz args = None"
    by (simp add: always_constructs_def)
  have nd: "\<not> too_deep cycle_side 0 (VStr ''object:C'')"
    by (simp add: cycle_side_def)
  note side = reference_cycle_fails
    [where all_dicts = cycle_side and ignore_names = "{}" and B = "{''object:A'', ''object:B''}"
       and st = empty_state and m = "''object:A''" and construct = always_constructs
       and depth = 0]
  note pure = reference_cycle_fails
    [where all_dicts = cycle_AB and ignore_names = "{}" and st = empty_state
       and construct = always_constructs and depth = 0 and S = "{''A'', ''B''}" and n = "''A''"]
  have 1: "\<exists>e. get_object always_constructs (VStr ''object:A'') cycle_side empty_state {} 0 = Inl e"
    using side bl dj by blast
  have 2: "get_object always_constructs (VStr ''object:A'') cycle_side empty_state {} 0
     = Inl DepthExceeded"
  proof -
    from side bl dj sd sa
    have "get_object always_constructs (VStr ''object:A'') cycle_side empty_state {} 0
            = Inl DepthExceeded \<or>
          (\<exists>name clazz args x. always_constructs clazz args = Some x \<and>
             get_object always_constructs (VStr ''object:A'') cycle_side empty_state {} 0
               = Inl (ConfigBuildException name x))"
      by blast
    then show ?thesis by (simp add: always_constructs_def)
  qed
  have 3: "get_object always_constructs (VStr (''object:'' @ ''A'')) cycle_AB empty_state {} 0
     = Inl DepthExceeded"
    using pure pc by blast
  have 4: "too_deep cycle_side 0 (VStr ''object:A'')"
    using side [where v = "VStr ''object:A''"] 2 by blast
  have 5: "\<exists>r st'. get_object always_constructs (VStr ''object:C'') cycle_side empty_state {} 0
              = Inr (r, st')"
    using side [where v = "VStr ''object:C''"] sd sc ac nd by blast
  have 6: "\<not> too_deep (chain 20) 0 (VStr (''object:'' @ chain_name 0)) \<and>
   (\<exists>r st'. get_object always_constructs (VStr (''object:'' @ chain_name 0)) (chain 20)
              empty_state {} 0 = Inr (r, st'))"
    using side [where k = 20] by simp
  have 7: "too_deep (chain 21) 0 (VStr (''object:'' @ chain_name 0)) \<and>
   get_object always_constructs (VStr (''object:'' @ chain_name 0)) (chain 21) empty_state {} 0
     = Inl DepthExceeded"
    using side [where k = 21] by simp
  from 1 2 3 4 5 6 7 show ?thesis by blast
qed

text \<open>
  Not every reference cycle ends with the depth-exceeded error: when the section
  \<open>A\<close> of the cycle has no \<open>class\<close>, the resolution of either member fails with the
  error for the missing class, at depth 0 or 1, and so does a whole load.
\<close>

theorem reference_cycle_no_class_counterexample:
  "get_object always_constructs (VStr ''object:A'') cycle_no_class empty_state {} 0
     = Inl (ClassNotDefined ''A'') \<and>
   get_object always_constructs (VStr ''object:B'') cycle_no_class empty_state {} 0
     = Inl (ClassNotDefined ''A'') \<and>
   load_config_dicts always_constructs ((''main'', [(''model'', VStr ''object:A'')]) # cycle_no_class) {}
     = Inl (ConfigBuildException ''model'' (ClassNotDefined ''A''))"
  by (simp add: load_config_dicts_def cycle_no_class_def build_defs class_Link_def)

subsection \<open>One instance for every name\<close>























end
